theory Spec2Isabelle
  imports Complex_Main
begin

section \<open>Data model (src/lib/logic.ts, lines 4-39)\<close>

text \<open>
  A JavaScript \<open>Date\<close> is modelled by the number of the calendar day it falls on, counted
  from 1970-01-01 (day 0, a Thursday); \<open>addDays\<close> is addition and the comparison of two
  dates is the comparison of their day numbers. A JavaScript \<open>number\<close> holding a duration
  is an exact rational (no NaN, no infinities, no rounding); a manual offset is an integer.
  The counter of working days that the scheduler counts down is an integer that is
  decremented the way a double is (\<open>decrement\<close> below). An optional field is an \<open>option\<close>.
\<close>

type_synonym date = int

datatype TaskType = Standard | Milestone | Bottleneck | KeyDecision | ExternalDependency

record Task =
  task_id :: string
  name :: string
  phase :: string
  durationWeeks :: rat
  originalDurationWeeks :: rat
  compressionRatio :: rat
  predecessors :: "string list"
  task_type :: TaskType
  manualStartOffset :: "int option"
  serialNumber :: "nat option"
  computedStart :: "date option"
  computedEnd :: "date option"

record Project =
  projectName :: string
  startDate :: date
  country :: "string list"
  tasks :: "Task list"
  vddEnabled :: bool

definition createProject :: "string \<Rightarrow> date \<Rightarrow> string list \<Rightarrow> Project" where
  "createProject n sd cs =
     \<lparr>projectName = n, startDate = sd, country = cs, tasks = [], vddEnabled = False\<rparr>"

section \<open>Calendar (lines 41-69)\<close>

text \<open>
  The holiday tables come from the external package \<open>date-holidays\<close>; they are a parameter
  of the model: \<open>H code d\<close> is what \<open>new Holidays(code).isHoliday(d)\<close> answers, as a
  truth value, and \<open>None\<close> when the call throws.
\<close>

type_synonym holidays = "string \<Rightarrow> date \<Rightarrow> bool option"

definition getDay :: "date \<Rightarrow> int" where
  "getDay d = (d + 4) mod 7"

definition isWeekend :: "date \<Rightarrow> bool" where
  "isWeekend d = (getDay d = 0 \<or> getDay d = 6)"

fun isHoliday :: "holidays \<Rightarrow> date \<Rightarrow> string list \<Rightarrow> bool" where
  "isHoliday H d [] = False"
| "isHoliday H d (code # rest) =
     (case H code d of
        Some True \<Rightarrow> True
      | Some False \<Rightarrow> isHoliday H d rest
      | None \<Rightarrow> isHoliday H d rest)"

function getBusinessDaysLoop :: "holidays \<Rightarrow> string list \<Rightarrow> date \<Rightarrow> int \<Rightarrow> date \<Rightarrow> int" where
  "getBusinessDaysLoop H countries endDate count cur =
     (if cur < endDate
      then getBusinessDaysLoop H countries endDate
             (if \<not> isWeekend cur \<and> \<not> isHoliday H cur countries then count + 1 else count)
             (cur + 1)
      else count)"
  by pat_completeness auto
termination
  by (relation "measure (\<lambda>(H, countries, endDate, count, cur). nat (endDate - cur))") auto

definition getBusinessDays :: "holidays \<Rightarrow> date \<Rightarrow> date \<Rightarrow> string list \<Rightarrow> int" where
  "getBusinessDays H start endDate countries = getBusinessDaysLoop H countries endDate 0 start"

section \<open>Scheduler (lines 72-155)\<close>

text \<open>The loop of lines 125-127; it does not return when no later day is a business day.\<close>

partial_function (option) roundToBusinessDay :: "holidays \<Rightarrow> string list \<Rightarrow> date \<Rightarrow> date option" where
  "roundToBusinessDay H countries startCandidate =
     (if isWeekend startCandidate \<or> isHoliday H startCandidate countries
      then roundToBusinessDay H countries (startCandidate + 1)
      else Some startCandidate)"

declare roundToBusinessDay.simps [code]

text \<open>
  The counter \<open>daysToAdd\<close> of line 135 is a double with an integer value, and
  \<open>daysToAdd--\<close> is the double nearest to its value minus 1. Up to \<open>2^53 = 9007199254740992\<close>
  the subtraction is exact. Between \<open>2^53\<close> and \<open>2^54 = 18014398509481984\<close> the doubles are
  the even integers, so \<open>x - 1\<close> lies halfway between the doubles \<open>x - 2\<close> and \<open>x\<close> and is
  rounded to the one whose significand is even: to \<open>x - 2\<close> when \<open>x / 2\<close> is odd, to \<open>x\<close>
  itself otherwise. From \<open>2^54\<close> on, \<open>x\<close> is the nearest double and the counter does not move.
  So \<open>10^16 - 1\<close> is \<open>10^16\<close> again, and \<open>2^53 + 2\<close> is the only counter above \<open>2^53\<close>
  that a decrement brings down to \<open>2^53\<close>. The loop decrements positive counters only.
\<close>

definition decrement :: "int \<Rightarrow> int" where
  "decrement x =
     (if x \<le> 9007199254740992 then x - 1
      else if x < 18014398509481984 \<and> odd (x div 2) then x - 2
      else x)"

text \<open>
  The loop of lines 138-142; it does not return when no later day is a business day, nor when
  the decrement leaves the counter where it is.
\<close>

partial_function (option) addBusinessDays :: "holidays \<Rightarrow> string list \<Rightarrow> int \<Rightarrow> date \<Rightarrow> date option" where
  "addBusinessDays H countries daysToAdd current =
     (if daysToAdd > 0
      then (if isWeekend (current + 1) \<or> isHoliday H (current + 1) countries
            then addBusinessDays H countries daysToAdd (current + 1)
            else addBusinessDays H countries (decrement daysToAdd) (current + 1))
      else Some current)"

declare addBusinessDays.simps [code]

text \<open>
  \<open>tasksById\<close> is filled in list order, so a later task replaces an earlier one with the
  same id; the map holds the task objects themselves, so a lookup sees their current fields.
\<close>

definition tasksById :: "Task list \<Rightarrow> string \<Rightarrow> Task option" where
  "tasksById ts i = find (\<lambda>t. task_id t = i) (rev ts)"

text \<open>
  The loop over the predecessors (lines 98-113): the result is \<open>predsReady\<close> and
  \<open>maxPredEnd\<close>.
\<close>

fun scanPredecessors :: "Task list \<Rightarrow> string set \<Rightarrow> string list \<Rightarrow> date \<Rightarrow> bool \<times> date" where
  "scanPredecessors ts processed [] maxPredEnd = (True, maxPredEnd)"
| "scanPredecessors ts processed (predId # rest) maxPredEnd =
     (case tasksById ts predId of
        None \<Rightarrow> scanPredecessors ts processed rest maxPredEnd
      | Some pred \<Rightarrow>
          (case computedEnd pred of
             None \<Rightarrow> (False, maxPredEnd)
           | Some e \<Rightarrow>
               if task_id pred \<notin> processed then (False, maxPredEnd)
               else scanPredecessors ts processed rest (if e > maxPredEnd then e else maxPredEnd)))"

text \<open>Lines 116-144: the dates of a task whose predecessors are ready.\<close>

definition placeTask :: "holidays \<Rightarrow> string list \<Rightarrow> Task \<Rightarrow> date \<Rightarrow> Task option" where
  "placeTask H countries task maxPredEnd =
     (let startCandidate =
            (case manualStartOffset task of
               None \<Rightarrow> maxPredEnd
             | Some off \<Rightarrow> if off \<noteq> 0 then maxPredEnd + off else maxPredEnd)
      in case roundToBusinessDay H countries startCandidate of
           None \<Rightarrow> None
         | Some start \<Rightarrow>
             if durationWeeks task = 0
             then Some (task\<lparr>computedStart := Some start, computedEnd := Some start\<rparr>)
             else (case addBusinessDays H countries \<lfloor>durationWeeks task * 5\<rfloor> start of
                     None \<Rightarrow> None
                   | Some current \<Rightarrow>
                       Some (task\<lparr>computedStart := Some start, computedEnd := Some current\<rparr>)))"

record SchedState =
  st_tasks :: "Task list"
  st_processed :: "string set"
  st_progressMade :: bool

text \<open>The body of the loop over the tasks (lines 95-149) for the task at position \<open>i\<close>.\<close>

definition visitTask :: "holidays \<Rightarrow> date \<Rightarrow> string list \<Rightarrow> nat \<Rightarrow> SchedState \<Rightarrow> SchedState option" where
  "visitTask H sd countries i st =
     (let task = st_tasks st ! i in
      if task_id task \<in> st_processed st then Some st
      else case scanPredecessors (st_tasks st) (st_processed st) (predecessors task) sd of
             (False, _) \<Rightarrow> Some st
           | (True, maxPredEnd) \<Rightarrow>
               (case placeTask H countries task maxPredEnd of
                  None \<Rightarrow> None
                | Some task' \<Rightarrow>
                    Some \<lparr>st_tasks = (st_tasks st)[i := task'],
                          st_processed = insert (task_id task) (st_processed st),
                          st_progressMade = True\<rparr>))"

fun visitTasks :: "holidays \<Rightarrow> date \<Rightarrow> string list \<Rightarrow> nat list \<Rightarrow> SchedState \<Rightarrow> SchedState option" where
  "visitTasks H sd countries [] st = Some st"
| "visitTasks H sd countries (i # is) st =
     (case visitTask H sd countries i st of
        None \<Rightarrow> None
      | Some st' \<Rightarrow> visitTasks H sd countries is st')"

text \<open>One pass: \<open>progressMade\<close> starts false, then every task is visited in list order.\<close>

definition schedulePass :: "holidays \<Rightarrow> date \<Rightarrow> string list \<Rightarrow> Task list \<times> string set \<Rightarrow> SchedState option" where
  "schedulePass H sd countries tp =
     visitTasks H sd countries [0..<length (fst tp)]
       \<lparr>st_tasks = fst tp, st_processed = snd tp, st_progressMade = False\<rparr>"

text \<open>
  The while loop of lines 87-152; the arguments are \<open>maxIterations\<close>, \<open>iterations\<close>, the
  tasks and \<open>processed\<close>.
\<close>

function scheduleLoop ::
  "holidays \<Rightarrow> date \<Rightarrow> string list \<Rightarrow> nat \<Rightarrow> nat \<Rightarrow> Task list \<times> string set \<Rightarrow> (Task list \<times> string set) option" where
  "scheduleLoop H sd countries maxIterations iterations tp =
     (if card (snd tp) < length (fst tp)
      then (if iterations + 1 > maxIterations then Some tp
            else (case schedulePass H sd countries tp of
                    None \<Rightarrow> None
                  | Some st \<Rightarrow>
                      if \<not> st_progressMade st then Some (st_tasks st, st_processed st)
                      else scheduleLoop H sd countries maxIterations (iterations + 1)
                             (st_tasks st, st_processed st)))
      else Some tp)"
  by pat_completeness auto
termination
  by (relation "measure (\<lambda>(H, sd, countries, maxIterations, iterations, tp). maxIterations - iterations)") auto

text \<open>Lines 74-78: the computed fields are reset and the serial numbers assigned.\<close>

definition resetComputed :: "Task list \<Rightarrow> Task list" where
  "resetComputed ts =
     map (\<lambda>(t, index). t\<lparr>serialNumber := Some (index + 1), computedStart := None, computedEnd := None\<rparr>)
       (zip ts [0..<length ts])"

definition calculateSchedule :: "holidays \<Rightarrow> Project \<Rightarrow> Project option" where
  "calculateSchedule H project =
     (let ts = resetComputed (tasks project) in
      case scheduleLoop H (startDate project) (country project) (length ts * 3) 0 (ts, {}) of
        None \<Rightarrow> None
      | Some tp \<Rightarrow> Some (project\<lparr>tasks := fst tp\<rparr>))"


section \<open>Workstream injector (lines 157-188)\<close>

text \<open>\<open>s.includes(sub)\<close> and \<open>xs.findIndex(P)\<close>, the latter with \<open>None\<close> for -1.\<close>

fun startsWith :: "string \<Rightarrow> string \<Rightarrow> bool" where
  "startsWith s [] = True"
| "startsWith [] (c # sub) = False"
| "startsWith (d # s) (c # sub) = (d = c \<and> startsWith s sub)"

fun includesStr :: "string \<Rightarrow> string \<Rightarrow> bool" where
  "includesStr [] sub = (sub = [])"
| "includesStr (d # s) sub = (startsWith (d # s) sub \<or> includesStr s sub)"

fun findIndex :: "('a \<Rightarrow> bool) \<Rightarrow> 'a list \<Rightarrow> nat option" where
  "findIndex P [] = None"
| "findIndex P (x # xs) =
     (if P x then Some 0 else (case findIndex P xs of None \<Rightarrow> None | Some i \<Rightarrow> Some (i + 1)))"

definition vddTask :: "string \<Rightarrow> string \<Rightarrow> rat \<Rightarrow> string list \<Rightarrow> TaskType \<Rightarrow> Task" where
  "vddTask i n w ps ty =
     \<lparr>task_id = i, name = n, phase = ''Phase 1: Preparation'', durationWeeks = w,
      originalDurationWeeks = w, compressionRatio = 1, predecessors = ps, task_type = ty,
      manualStartOffset = None, serialNumber = None, computedStart = None, computedEnd = None\<rparr>"

definition vddTasks :: "Task list" where
  "vddTasks =
     [vddTask ''VDD.1'' ''Selection of VDD Advisors (Financial, Legal, Tax)'' 2 [''T1.1''] KeyDecision,
      vddTask ''VDD.2'' ''Financial VDD Execution'' 4 [''VDD.1''] Standard,
      vddTask ''VDD.3'' ''Tax & Legal VDD Execution'' 4 [''VDD.1''] Standard,
      vddTask ''VDD.4'' ''VDD Reports Draft Review'' 2 [''VDD.2'', ''VDD.3''] Bottleneck]"

definition isKickoff :: "Task \<Rightarrow> bool" where
  "isKickoff t = (task_id t = ''T1.1'' \<or> task_id t = ''F1.1'' \<or> task_id t = ''D1.1'')"

text \<open>Lines 180-185: the first task whose name has the marker is shortened in place.\<close>

definition shortenPhase3 :: "Task list \<Rightarrow> Task list" where
  "shortenPhase3 ts =
     (case findIndex (\<lambda>t. includesStr (name t) ''Confirmatory Due Diligence'') ts of
        None \<Rightarrow> ts
      | Some i \<Rightarrow>
          let p3Task = ts ! i in
          if durationWeeks p3Task > 3
          then ts[i := p3Task\<lparr>durationWeeks := durationWeeks p3Task - 2,
                                originalDurationWeeks := durationWeeks p3Task - 2,
                                name := name p3Task @ '' (Shortened due to VDD)''\<rparr>]
          else ts)"

definition injectVddTasks :: "Project \<Rightarrow> Project" where
  "injectVddTasks project =
     (if \<not> vddEnabled project then project
      else if list_ex (\<lambda>t. task_id t = ''VDD.1'') (tasks project) then project
      else
        let newTasks = tasks project;
            insertIdx = (case findIndex isKickoff newTasks of None \<Rightarrow> 0 | Some i \<Rightarrow> i + 1);
            newTasks = take insertIdx newTasks @ vddTasks @ drop insertIdx newTasks
        in project\<lparr>tasks := shortenPhase3 newTasks\<rparr>)"

section \<open>Compression engine (lines 198-308)\<close>

text \<open>
  In JavaScript a division by zero yields an infinity or NaN, which the rational durations
  of this model do not have: it is the error \<open>DivisionByZero\<close>.
\<close>

datatype error = DivisionByZero

definition divide_days :: "int \<Rightarrow> int \<Rightarrow> error + rat" where
  "divide_days availableDays standardDays =
     (if standardDays = 0 then Inl DivisionByZero
      else Inr (of_int availableDays / of_int standardDays))"

text \<open>Lines 200-205.\<close>

definition resetDurations :: "Task list \<Rightarrow> Task list" where
  "resetDurations ts =
     map (\<lambda>t. if originalDurationWeeks t > 0
              then t\<lparr>durationWeeks := originalDurationWeeks t, compressionRatio := 1\<rparr>
              else t) ts"

text \<open>
  Lines 225-229. The two blocks hold task objects and \<open>block1Tasks.includes(t)\<close> compares
  objects, so a block is the list of the positions of its tasks in \<open>project.tasks\<close>.
\<close>

definition inBlock1 :: "Task \<Rightarrow> bool" where
  "inBlock1 t = (includesStr (phase t) ''Phase 1'' \<or> includesStr (phase t) ''Preparation''
                 \<or> includesStr (phase t) ''Kick-off'')"

definition block1Tasks :: "Task list \<Rightarrow> nat list" where
  "block1Tasks ts = filter (\<lambda>i. inBlock1 (ts ! i)) [0..<length ts]"

definition block2Tasks :: "Task list \<Rightarrow> nat list" where
  "block2Tasks ts = filter (\<lambda>i. i \<notin> set (block1Tasks ts)) [0..<length ts]"

text \<open>Lines 255-260 and 297-302: the tasks of a block are rescaled in place.\<close>

definition scaleTask :: "rat \<Rightarrow> Task \<Rightarrow> Task" where
  "scaleTask ratio t =
     (if durationWeeks t > 0
      then t\<lparr>durationWeeks := originalDurationWeeks t * ratio, compressionRatio := ratio\<rparr>
      else t)"

fun scaleBlock :: "nat list \<Rightarrow> rat \<Rightarrow> Task list \<Rightarrow> Task list" where
  "scaleBlock [] ratio ts = ts"
| "scaleBlock (i # is) ratio ts = scaleBlock is ratio (ts[i := scaleTask ratio (ts ! i)])"

text \<open>Lines 241-247: the latest end of a block-1 task in the baseline schedule.\<close>

fun maxEndOfBlock1 :: "Task list \<Rightarrow> nat list \<Rightarrow> date \<Rightarrow> date" where
  "maxEndOfBlock1 tempTasks [] maxEndBlock1 = maxEndBlock1"
| "maxEndOfBlock1 tempTasks (i # is) maxEndBlock1 =
     maxEndOfBlock1 tempTasks is
       (case find (\<lambda>x. task_id x = task_id (tempTasks ! i)) tempTasks of
          None \<Rightarrow> maxEndBlock1
        | Some tempT \<Rightarrow>
            (case computedEnd tempT of
               None \<Rightarrow> maxEndBlock1
             | Some e \<Rightarrow> if e > maxEndBlock1 then e else maxEndBlock1))"

text \<open>
  Lines 232-262; \<open>block1\<close> is \<open>block1Tasks\<close>. \<open>calculateSchedule\<close> is given a shallow copy of the project, whose tasks
  are the project's own task objects: the project's tasks carry the dates afterwards.
\<close>

definition compressBlock1 ::
  "holidays \<Rightarrow> Project \<Rightarrow> nat list \<Rightarrow> date \<Rightarrow> (error + Project) option" where
  "compressBlock1 H project block1 marketingDate =
     (let availableDays = getBusinessDays H (startDate project) marketingDate (country project) in
      case calculateSchedule H project of
        None \<Rightarrow> None
      | Some tempProj \<Rightarrow>
          let maxEndBlock1 =
                maxEndOfBlock1 (tasks tempProj) block1 (startDate project);
              standardDays = getBusinessDays H (startDate project) maxEndBlock1 (country project)
          in if standardDays > 0 \<and> availableDays > 0
             then (case divide_days availableDays standardDays of
                     Inl e \<Rightarrow> Some (Inl e)
                   | Inr ratio \<Rightarrow>
                       Some (Inr (tempProj\<lparr>tasks := scaleBlock block1 ratio (tasks tempProj)\<rparr>)))
             else Some (Inr tempProj))"

text \<open>
  Lines 274-287. \<open>minStartBlock2\<close> starts as the object \<open>signingDate\<close> itself, which
  \<open>===\<close> recognises: \<open>None\<close> stands for it. \<open>new Date(0)\<close> is day 0.
\<close>

fun boundsOfBlock2 :: "Task list \<Rightarrow> nat list \<Rightarrow> date option \<times> date \<Rightarrow> date option \<times> date" where
  "boundsOfBlock2 tempTasks [] b = b"
| "boundsOfBlock2 tempTasks (i # is) b =
     boundsOfBlock2 tempTasks is
       (case find (\<lambda>x. task_id x = task_id (tempTasks ! i)) tempTasks of
          None \<Rightarrow> b
        | Some tempT \<Rightarrow>
            ((case computedStart tempT of
                None \<Rightarrow> fst b
              | Some s \<Rightarrow>
                  (case fst b of
                     None \<Rightarrow> Some s
                   | Some minStartBlock2 \<Rightarrow> if s < minStartBlock2 then Some s else Some minStartBlock2)),
             (case computedEnd tempT of
                None \<Rightarrow> snd b
              | Some e \<Rightarrow> if e > snd b then e else snd b)))"

text \<open>Lines 265-305; \<open>block2\<close> is \<open>block2Tasks\<close>.\<close>

definition compressBlock2 ::
  "holidays \<Rightarrow> Project \<Rightarrow> nat list \<Rightarrow> date \<Rightarrow> (error + Project) option" where
  "compressBlock2 H project block2 signingDate =
     (case calculateSchedule H project of
        None \<Rightarrow> None
      | Some tempProj \<Rightarrow>
          (case boundsOfBlock2 (tasks tempProj) block2 (None, 0) of
             (None, maxEndBlock2) \<Rightarrow> Some (Inr tempProj)
           | (Some minStartBlock2, maxEndBlock2) \<Rightarrow>
               if minStartBlock2 < signingDate
               then
                 let availableDays = getBusinessDays H minStartBlock2 signingDate (country project);
                     standardDays = getBusinessDays H minStartBlock2 maxEndBlock2 (country project)
                 in if standardDays > 0 \<and> availableDays > 0
                    then (case divide_days availableDays standardDays of
                            Inl e \<Rightarrow> Some (Inl e)
                          | Inr ratio \<Rightarrow>
                              Some (Inr (tempProj\<lparr>tasks :=
                                scaleBlock block2 ratio (tasks tempProj)\<rparr>)))
                    else Some (Inr tempProj)
               else Some (Inr tempProj)))"

text \<open>
  Lines 198-308. The result is \<open>None\<close> when a scheduling run does not return, and
  \<open>Some (Inl DivisionByZero)\<close> when a ratio is computed with a zero divisor.
\<close>

definition compressSchedule ::
  "holidays \<Rightarrow> Project \<Rightarrow> date option \<Rightarrow> date option \<Rightarrow> (error + Project) option" where
  "compressSchedule H project marketingDate signingDate =
     (let project = project\<lparr>tasks := resetDurations (tasks project)\<rparr>;
          block1 = block1Tasks (tasks project);
          block2 = block2Tasks (tasks project)
      in
      if marketingDate = None \<and> signingDate = None
      then map_option Inr (calculateSchedule H project)
      else
        (case (case marketingDate of
                 None \<Rightarrow> Some (Inr project)
               | Some m \<Rightarrow> compressBlock1 H project block1 m) of
           None \<Rightarrow> None
         | Some (Inl e) \<Rightarrow> Some (Inl e)
         | Some (Inr project1) \<Rightarrow>
             (case (case signingDate of
                      None \<Rightarrow> Some (Inr project1)
                    | Some s \<Rightarrow> compressBlock2 H project1 block2 s) of
                None \<Rightarrow> None
              | Some (Inl e) \<Rightarrow> Some (Inl e)
              | Some (Inr project2) \<Rightarrow> map_option Inr (calculateSchedule H project2))))"


section \<open>Vocabulary of the properties\<close>

text \<open>A business day is neither a weekend day nor a holiday in one of the jurisdictions.\<close>

definition businessDay :: "holidays \<Rightarrow> string list \<Rightarrow> date \<Rightarrow> bool" where
  "businessDay H countries d = (\<not> isWeekend d \<and> \<not> isHoliday H d countries)"

text \<open>
  The assumption made of the external holiday tables: business days do not run out, that is,
  after every day there is a later business day.
\<close>

definition calendar_ok :: "holidays \<Rightarrow> string list \<Rightarrow> bool" where
  "calendar_ok H countries = (\<forall>d. \<exists>d'\<ge>d. businessDay H countries d')"

text \<open>
  The working days of a task are counted down exactly: their number is at most \<open>2^53\<close>.
\<close>

definition walkCounted :: "Task \<Rightarrow> bool" where
  "walkCounted t = (\<lfloor>durationWeeks t * 5\<rfloor> \<le> 9007199254740992)"

definition offsetNonneg :: "Task \<Rightarrow> bool" where
  "offsetNonneg t = (case manualStartOffset t of None \<Rightarrow> True | Some off \<Rightarrow> 0 \<le> off)"

text \<open>\<open>k\<close> full passes over the tasks, one after the other.\<close>

fun runPasses ::
  "holidays \<Rightarrow> date \<Rightarrow> string list \<Rightarrow> nat \<Rightarrow> Task list \<times> string set \<Rightarrow> (Task list \<times> string set) option" where
  "runPasses H sd countries 0 tp = Some tp"
| "runPasses H sd countries (Suc k) tp =
     (case schedulePass H sd countries tp of
        None \<Rightarrow> None
      | Some st \<Rightarrow> runPasses H sd countries k (st_tasks st, st_processed st))"

text \<open>The dates of a task are those the scheduler computes from its start.\<close>

definition placed :: "holidays \<Rightarrow> string list \<Rightarrow> Task \<Rightarrow> bool" where
  "placed H countries t =
     (case computedStart t of
        None \<Rightarrow> computedEnd t = None
      | Some s \<Rightarrow>
          businessDay H countries s \<and>
          (if durationWeeks t = 0 then computedEnd t = Some s
           else computedEnd t \<noteq> None \<and>
                addBusinessDays H countries \<lfloor>durationWeeks t * 5\<rfloor> s = computedEnd t))"

text \<open>The invariant of the scheduling loop, for the tasks \<open>ts0\<close> it started from.\<close>

definition sched_inv ::
  "holidays \<Rightarrow> string list \<Rightarrow> Task list \<Rightarrow> Task list \<times> string set \<Rightarrow> bool" where
  "sched_inv H countries ts0 tp =
     (let ts = fst tp; processed = snd tp in
      length ts = length ts0 \<and>
      (\<forall>i<length ts.
         ts ! i = (ts0 ! i)\<lparr>computedStart := computedStart (ts ! i), computedEnd := computedEnd (ts ! i)\<rparr>
         \<and> placed H countries (ts ! i)
         \<and> (computedStart (ts ! i) \<noteq> None \<longrightarrow> task_id (ts ! i) \<in> processed)
         \<and> (\<forall>j<length ts. computedStart (ts ! i) \<noteq> None \<and> computedStart (ts ! j) \<noteq> None
                \<and> task_id (ts ! i) = task_id (ts ! j) \<longrightarrow> i = j)
         \<and> (computedStart (ts ! i) \<noteq> None \<longrightarrow>
              (\<forall>predId\<in>set (predecessors (ts ! i)). \<forall>pred. tasksById ts predId = Some pred \<longrightarrow>
                 predId \<in> processed \<and>
                 (\<exists>e. computedEnd pred = Some e \<and>
                      (offsetNonneg (ts ! i) \<longrightarrow> e \<le> the (computedStart (ts ! i))))))))"

text \<open>
  A set of ids is stuck when every task with an id in the set has a predecessor id in the
  set that some task of the project carries: a dependency cycle is such a set.
\<close>

definition stuckSet :: "string set \<Rightarrow> Task list \<Rightarrow> bool" where
  "stuckSet S ts =
     (\<forall>t\<in>set ts. task_id t \<in> S \<longrightarrow>
        (\<exists>predId\<in>set (predecessors t). predId \<in> S \<and> (\<exists>q\<in>set ts. task_id q = predId)))"

text \<open>
  Sample inputs: a calendar whose only holiday is Monday 2024-01-01 (day 19723) in the US,
  and projects starting on that day.
\<close>

definition sampleHolidays :: holidays where
  "sampleHolidays code d = (if code = ''US'' then Some (d = 19723) else None)"

definition sampleTask :: "string \<Rightarrow> rat \<Rightarrow> string list \<Rightarrow> int option \<Rightarrow> Task" where
  "sampleTask i w ps off =
     \<lparr>task_id = i, name = ''Task'', phase = ''Phase 1: Preparation'', durationWeeks = w,
      originalDurationWeeks = w, compressionRatio = 1, predecessors = ps, task_type = Standard,
      manualStartOffset = off, serialNumber = None, computedStart = None, computedEnd = None\<rparr>"

definition sampleProject :: "Task list \<Rightarrow> Project" where
  "sampleProject ts =
     \<lparr>projectName = ''Sample'', startDate = 19723, country = [''US''], tasks = ts,
      vddEnabled = False\<rparr>"

definition taskWith :: "string \<Rightarrow> string \<Rightarrow> rat \<Rightarrow> rat \<Rightarrow> rat \<Rightarrow> string list \<Rightarrow> Task" where
  "taskWith i ph w ow r ps =
     \<lparr>task_id = i, name = ''Task'', phase = ph, durationWeeks = w,
      originalDurationWeeks = ow, compressionRatio = r, predecessors = ps, task_type = Standard,
      manualStartOffset = None, serialNumber = None, computedStart = None, computedEnd = None\<rparr>"

definition taskAt :: "Task \<Rightarrow> nat \<Rightarrow> date \<Rightarrow> date \<Rightarrow> Task" where
  "taskAt t n s e = t\<lparr>serialNumber := Some n, computedStart := Some s, computedEnd := Some e\<rparr>"

text \<open>
  A task's baseline is consistent when a baseline that is not positive comes with a duration
  that is not positive either.
\<close>

definition baselineConsistent :: "Task \<Rightarrow> bool" where
  "baselineConsistent t = (originalDurationWeeks t \<le> 0 \<longrightarrow> durationWeeks t \<le> 0)"

text \<open>A task without its computed fields, and a task as the reset of lines 200-205 leaves it,
  without its computed fields.\<close>

definition clearComputed :: "Task \<Rightarrow> Task" where
  "clearComputed t = t\<lparr>serialNumber := None, computedStart := None, computedEnd := None\<rparr>"

definition baseTask :: "Task \<Rightarrow> Task" where
  "baseTask t =
     clearComputed (if originalDurationWeeks t > 0
                    then t\<lparr>durationWeeks := originalDurationWeeks t, compressionRatio := 1\<rparr>
                    else t)"

text \<open>The block-1 part (lines 232-262) and the block-2 part (lines 265-305) of
  \<open>compressSchedule\<close>, each with the test of its date.\<close>

definition stage1 :: "holidays \<Rightarrow> Project \<Rightarrow> date option \<Rightarrow> (error + Project) option" where
  "stage1 H p0 m = (case m of None \<Rightarrow> Some (Inr p0)
                    | Some md \<Rightarrow> compressBlock1 H p0 (block1Tasks (tasks p0)) md)"

definition stage2 :: "holidays \<Rightarrow> Project \<Rightarrow> Project \<Rightarrow> date option \<Rightarrow> (error + Project) option" where
  "stage2 H p0 p1 s = (case s of None \<Rightarrow> Some (Inr p1)
                       | Some sd \<Rightarrow> compressBlock2 H p1 (block2Tasks (tasks p0)) sd)"

declare getBusinessDaysLoop.simps [simp del]
declare scheduleLoop.simps [simp del]

section \<open>Business-day arithmetic\<close>

lemma round_step:
  "roundToBusinessDay H cs d = (if businessDay H cs d then Some d else roundToBusinessDay H cs (d + 1))"
  by (subst roundToBusinessDay.simps) (simp add: businessDay_def)

lemma round_reaches:
  "businessDay H cs d' \<Longrightarrow> d \<le> d' \<Longrightarrow> \<exists>r. roundToBusinessDay H cs d = Some r"
proof (induction "nat (d' - d)" arbitrary: d)
  case 0
  then have "d = d'" by simp
  with 0 show ?case by (simp add: round_step)
next
  case (Suc n)
  show ?case
  proof (cases "businessDay H cs d")
    case True
    then show ?thesis by (simp add: round_step)
  next
    case False
    from Suc have "n = nat (d' - (d + 1))" "d + 1 \<le> d'" by linarith+
    with Suc.hyps(1) Suc.prems(1) have "\<exists>r. roundToBusinessDay H cs (d + 1) = Some r" by blast
    with False show ?thesis by (simp add: round_step)
  qed
qed

lemma round_total: "calendar_ok H cs \<Longrightarrow> \<exists>r. roundToBusinessDay H cs d = Some r"
  unfolding calendar_ok_def using round_reaches by blast

lemma round_sound:
  "roundToBusinessDay H cs d = Some r \<Longrightarrow> d \<le> r \<and> businessDay H cs r"
  by (rule roundToBusinessDay.raw_induct[where P = "\<lambda>H cs d r. d \<le> r \<and> businessDay H cs r"])
     (fastforce simp: businessDay_def split: if_splits)+

lemma add_step:
  "addBusinessDays H cs n d =
     (if 0 < n
      then (if businessDay H cs (d + 1) then addBusinessDays H cs (decrement n) (d + 1)
            else addBusinessDays H cs n (d + 1))
      else Some d)"
  by (subst addBusinessDays.simps) (simp add: businessDay_def)

lemma add_reaches:
  assumes later: "\<And>x. \<exists>e. addBusinessDays H cs (decrement n) x = Some e" and pos: "0 < n"
  shows "businessDay H cs d' \<Longrightarrow> d < d' \<Longrightarrow> \<exists>e. addBusinessDays H cs n d = Some e"
proof (induction "nat (d' - d - 1)" arbitrary: d)
  case 0
  then have "d + 1 = d'" by simp
  with 0 pos later show ?case by (subst add_step) simp
next
  case (Suc k)
  show ?case
  proof (cases "businessDay H cs (d + 1)")
    case True
    with pos later show ?thesis by (subst add_step) simp
  next
    case False
    from Suc have "k = nat (d' - (d + 1) - 1)" "d + 1 < d'" by linarith+
    with Suc.hyps(1) Suc.prems(1) have "\<exists>e. addBusinessDays H cs n (d + 1) = Some e" by blast
    with False pos show ?thesis by (subst add_step) simp
  qed
qed

lemma add_total_nat:
  "calendar_ok H cs \<Longrightarrow> int k \<le> 9007199254740992 \<Longrightarrow>
     \<exists>e. addBusinessDays H cs (int k) d = Some e"
proof (induction k arbitrary: d)
  case 0
  show ?case by (subst add_step) simp
next
  case (Suc k)
  from Suc.prems obtain d' where d': "d + 1 \<le> d'" "businessDay H cs d'"
    unfolding calendar_ok_def by blast
  from Suc.prems(2) have dec: "decrement (int (Suc k)) = int k" by (simp add: decrement_def)
  have "\<And>x. \<exists>e. addBusinessDays H cs (decrement (int (Suc k))) x = Some e"
    unfolding dec using Suc.IH[OF Suc.prems(1)] Suc.prems(2) by simp
  from add_reaches[OF this _ d'(2), of d] d'(1) show ?case by simp
qed

lemma add_total:
  "calendar_ok H cs \<Longrightarrow> n \<le> 9007199254740992 \<Longrightarrow> \<exists>e. addBusinessDays H cs n d = Some e"
proof (cases "0 < n")
  case True
  assume "calendar_ok H cs" "n \<le> 9007199254740992"
  with add_total_nat[of H cs "nat n" d] True show ?thesis by simp
next
  case False
  then show ?thesis by (subst add_step) simp
qed

text \<open>
  The one larger counter that reaches 0: the first decrement of \<open>2^53 + 2\<close> gives \<open>2^53\<close>.
\<close>

lemma add_total_tie:
  assumes "calendar_ok H cs"
  shows "\<exists>e. addBusinessDays H cs 9007199254740994 d = Some e"
proof -
  from assms obtain d' where d': "d + 1 \<le> d'" "businessDay H cs d'"
    unfolding calendar_ok_def by blast
  have dec: "decrement 9007199254740994 = 9007199254740992" by (simp add: decrement_def)
  have "\<And>x. \<exists>e. addBusinessDays H cs (decrement 9007199254740994) x = Some e"
    unfolding dec using add_total[OF assms] by simp
  from add_reaches[OF this _ d'(2), of d] d'(1) show ?thesis by simp
qed

text \<open>A counter that its decrement leaves where it is never reaches 0.\<close>

lemma add_stuck:
  assumes "0 < n" and "decrement n = n"
  shows "addBusinessDays H cs n d = None"
proof (rule ccontr)
  assume "addBusinessDays H cs n d \<noteq> None"
  then obtain e where run: "addBusinessDays H cs n d = Some e" by auto
  have "n' \<noteq> n"
    if "addBusinessDays H' cs' n' d' = Some e'" for H' cs' n' d' e'
  proof (rule addBusinessDays.raw_induct[where P = "\<lambda>H cs n' d e. n' \<noteq> n", OF _ that])
    fix f H cs n' d e
    assume IH: "\<And>H cs n' d e. f H cs n' d = Some e \<Longrightarrow> n' \<noteq> n"
      and step: "(if 0 < n'
        then if isWeekend (d + 1) \<or> isHoliday H (d + 1) cs
             then f H cs n' (d + 1)
             else f H cs (decrement n') (d + 1)
        else Some d) = Some e"
    show "n' \<noteq> n"
    proof
      assume eq: "n' = n"
      with step assms have "f H cs n (d + 1) = Some e"
        by (simp split: if_splits)
      from IH[OF this] show False by simp
    qed
  qed
  from this[OF run] show False by simp
qed

text \<open>A walk that ends had at most \<open>2^53\<close> working days to count, or \<open>2^53 + 2\<close>.\<close>

lemma add_returns:
  assumes "addBusinessDays H cs n d = Some e"
  shows "n \<le> 9007199254740992 \<or> n = 9007199254740994"
proof (rule addBusinessDays.raw_induct[where
    P = "\<lambda>H cs n d e. n \<le> 9007199254740992 \<or> n = 9007199254740994", OF _ assms])
  fix f H cs n d e
  assume IH: "\<And>H cs n d e. f H cs n d = Some e \<Longrightarrow>
      n \<le> 9007199254740992 \<or> n = 9007199254740994"
    and step: "(if 0 < n
      then if isWeekend (d + 1) \<or> isHoliday H (d + 1) cs
           then f H cs n (d + 1)
           else f H cs (decrement n) (d + 1)
      else Some d) = Some e"
  show "n \<le> 9007199254740992 \<or> n = 9007199254740994"
  proof (cases "0 < n \<and> \<not> (isWeekend (d + 1) \<or> isHoliday H (d + 1) cs)")
    case False
    with step IH[of H cs n "d + 1" e] show ?thesis by (auto split: if_splits)
  next
    case True
    with step have "f H cs (decrement n) (d + 1) = Some e" by simp
    from IH[OF this] have later: "decrement n \<le> 9007199254740992 \<or> decrement n = 9007199254740994" .
    have "n \<noteq> 9007199254740993" "n \<noteq> 9007199254740996" if "odd (n div 2)"
      using that by auto
    with later show ?thesis unfolding decrement_def by (auto split: if_splits)
  qed
qed

lemma gbd_loop_acc:
  "getBusinessDaysLoop H cs e c cur = c + getBusinessDaysLoop H cs e 0 cur"
proof (induction "nat (e - cur)" arbitrary: c cur)
  case 0
  then have "\<not> cur < e" by simp
  then show ?case by (simp add: getBusinessDaysLoop.simps)
next
  case (Suc k)
  then have lt: "cur < e" and k: "k = nat (e - (cur + 1))" by linarith+
  let ?b = "if \<not> isWeekend cur \<and> \<not> isHoliday H cur cs then 1 else (0::int)"
  have "getBusinessDaysLoop H cs e c cur = getBusinessDaysLoop H cs e (c + ?b) (cur + 1)"
    using lt by (subst getBusinessDaysLoop.simps) simp
  also have "\<dots> = (c + ?b) + getBusinessDaysLoop H cs e 0 (cur + 1)"
    by (rule Suc.hyps(1)[OF k])
  also have "\<dots> = c + getBusinessDaysLoop H cs e ?b (cur + 1)"
    using Suc.hyps(1)[OF k, of ?b] by simp
  also have "getBusinessDaysLoop H cs e ?b (cur + 1) = getBusinessDaysLoop H cs e 0 cur"
    using lt by (subst (2) getBusinessDaysLoop.simps) simp
  finally show ?case .
qed

lemma gbd_rec:
  "getBusinessDays H a b cs =
     (if a < b then (if businessDay H cs a then 1 else 0) + getBusinessDays H (a + 1) b cs else 0)"
  unfolding getBusinessDays_def
  by (subst getBusinessDaysLoop.simps, subst gbd_loop_acc) (simp add: businessDay_def)

lemma gbd_empty: "b \<le> a \<Longrightarrow> getBusinessDays H a b cs = 0"
  by (subst gbd_rec) simp

lemma gbd_snoc:
  "a \<le> b \<Longrightarrow> getBusinessDays H a (b + 1) cs =
     getBusinessDays H a b cs + (if businessDay H cs b then 1 else 0)"
proof (induction "nat (b - a)" arbitrary: a)
  case 0
  then have "a = b" by simp
  then show ?case by (simp add: gbd_rec[of H b "b + 1"] gbd_empty)
next
  case (Suc k)
  then have lt: "a < b" and k: "k = nat (b - (a + 1))" and le: "a + 1 \<le> b" by linarith+
  from Suc.hyps(1)[OF k le] lt show ?case
    by (simp add: gbd_rec[of H a "b + 1"] gbd_rec[of H a b])
qed

lemma add_sound:
  assumes "addBusinessDays H cs n d = Some e"
  shows "(n \<le> 0 \<longrightarrow> e = d) \<and>
         (0 < n \<longrightarrow> d < e \<and> businessDay H cs e \<and>
            (n \<le> 9007199254740992 \<longrightarrow> getBusinessDays H (d + 1) (e + 1) cs = n) \<and>
            (n = 9007199254740994 \<longrightarrow> getBusinessDays H (d + 1) (e + 1) cs = n - 1))"
proof (rule addBusinessDays.raw_induct[where
    P = "\<lambda>H cs n d e. (n \<le> 0 \<longrightarrow> e = d) \<and>
      (0 < n \<longrightarrow> d < e \<and> businessDay H cs e \<and>
         (n \<le> 9007199254740992 \<longrightarrow> getBusinessDays H (d + 1) (e + 1) cs = n) \<and>
         (n = 9007199254740994 \<longrightarrow> getBusinessDays H (d + 1) (e + 1) cs = n - 1))",
    OF _ assms])
  fix f H cs n d e
  assume IH: "\<And>H cs n d e. f H cs n d = Some e \<Longrightarrow>
      (n \<le> 0 \<longrightarrow> e = d) \<and>
      (0 < n \<longrightarrow> d < e \<and> businessDay H cs e \<and>
         (n \<le> 9007199254740992 \<longrightarrow> getBusinessDays H (d + 1) (e + 1) cs = n) \<and>
         (n = 9007199254740994 \<longrightarrow> getBusinessDays H (d + 1) (e + 1) cs = n - 1))"
    and step: "(if 0 < n
      then if isWeekend (d + 1) \<or> isHoliday H (d + 1) cs
           then f H cs n (d + 1)
           else f H cs (decrement n) (d + 1)
      else Some d) = Some e"
  show "(n \<le> 0 \<longrightarrow> e = d) \<and>
      (0 < n \<longrightarrow> d < e \<and> businessDay H cs e \<and>
         (n \<le> 9007199254740992 \<longrightarrow> getBusinessDays H (d + 1) (e + 1) cs = n) \<and>
         (n = 9007199254740994 \<longrightarrow> getBusinessDays H (d + 1) (e + 1) cs = n - 1))"
  proof (cases "0 < n")
    case False
    with step show ?thesis by simp
  next
    case pos: True
    show ?thesis
    proof (cases "businessDay H cs (d + 1)")
      case False
      with step pos have "f H cs n (d + 1) = Some e" by (simp add: businessDay_def)
      from IH[OF this] pos have "d + 1 < e" "businessDay H cs e"
        "n \<le> 9007199254740992 \<longrightarrow> getBusinessDays H (d + 1 + 1) (e + 1) cs = n"
        "n = 9007199254740994 \<longrightarrow> getBusinessDays H (d + 1 + 1) (e + 1) cs = n - 1" by simp_all
      with False pos show ?thesis by (simp add: gbd_rec[of H "d + 1" "e + 1"])
    next
      case True
      with step pos have call: "f H cs (decrement n) (d + 1) = Some e" by (simp add: businessDay_def)
      show ?thesis
      proof (cases "n = 1")
        case True
        with IH[OF call] have e: "e = d + 1" by (simp add: decrement_def)
        from gbd_snoc[of "d + 1" "d + 1" H cs] \<open>businessDay H cs (d + 1)\<close>
        have "getBusinessDays H (d + 1) (d + 1 + 1) cs = 1" by (simp add: gbd_empty)
        with \<open>businessDay H cs (d + 1)\<close> True e show ?thesis by simp
      next
        case False
        with pos have dpos: "0 < decrement n" by (simp add: decrement_def)
        from IH[OF call] dpos have later: "d + 1 < e" "businessDay H cs e" by simp_all
        have small: "getBusinessDays H (d + 1) (e + 1) cs = n" if "n \<le> 9007199254740992"
        proof -
          from that have "decrement n = n - 1" by (simp add: decrement_def)
          with IH[OF call] dpos that have "getBusinessDays H (d + 1 + 1) (e + 1) cs = n - 1"
            by simp
          with True later show ?thesis by (simp add: gbd_rec[of H "d + 1" "e + 1"])
        qed
        have tie: "getBusinessDays H (d + 1) (e + 1) cs = n - 1" if "n = 9007199254740994"
        proof -
          from that have "decrement n = 9007199254740992" by (simp add: decrement_def)
          with IH[OF call] have "getBusinessDays H (d + 1 + 1) (e + 1) cs = 9007199254740992"
            by simp
          with True later that show ?thesis by (simp add: gbd_rec[of H "d + 1" "e + 1"])
        qed
        from pos later small tie show ?thesis by simp
      qed
    qed
  qed
qed




section \<open>The scheduling loop keeps its invariant\<close>

lemma tasksById_snoc:
  "tasksById (ts @ [t]) pid = (if task_id t = pid then Some t else tasksById ts pid)"
  by (simp add: tasksById_def)

lemma tasksById_Some:
  "tasksById ts pid = Some p \<Longrightarrow> task_id p = pid \<and> p \<in> set ts"
  by (induction ts rule: rev_induct) (auto simp: tasksById_snoc tasksById_def split: if_splits)

lemma tasksById_exists:
  "q \<in> set ts \<Longrightarrow> \<exists>p. tasksById ts (task_id q) = Some p"
  by (induction ts rule: rev_induct) (auto simp: tasksById_snoc)

lemma tasksById_same_ids:
  "map task_id ts = map task_id ts' \<Longrightarrow>
     (tasksById ts pid = None \<and> tasksById ts' pid = None) \<or>
     (\<exists>j<length ts. tasksById ts pid = Some (ts ! j) \<and> tasksById ts' pid = Some (ts' ! j))"
proof (induction ts arbitrary: ts' rule: rev_induct)
  case Nil
  then show ?case by (simp add: tasksById_def)
next
  case (snoc x xs)
  from snoc.prems obtain y ys where ts': "ts' = ys @ [y]"
    and ids: "map task_id xs = map task_id ys" "task_id x = task_id y"
    by (cases ts' rule: rev_cases) auto
  from ids(1) have len: "length xs = length ys" by (rule map_eq_imp_length_eq)
  show ?case
  proof (cases "task_id x = pid")
    case True
    have a: "(xs @ [x]) ! length xs = x" by simp
    have b: "(ys @ [y]) ! length xs = y" unfolding len by simp
    from a b True ids(2) show ?thesis
      by (auto simp: ts' tasksById_snoc intro!: exI[of _ "length xs"])
  next
    case False
    from snoc.IH[OF ids(1)] show ?thesis
    proof
      assume "tasksById xs pid = None \<and> tasksById ys pid = None"
      with False ids(2) show ?thesis by (simp add: ts' tasksById_snoc)
    next
      assume "\<exists>j<length xs. tasksById xs pid = Some (xs ! j) \<and> tasksById ys pid = Some (ys ! j)"
      then obtain j where "j < length xs" "tasksById xs pid = Some (xs ! j)"
        "tasksById ys pid = Some (ys ! j)" by blast
      with False ids(2) len show ?thesis
        by (auto simp: ts' tasksById_snoc nth_append intro!: exI[of _ j])
    qed
  qed
qed

lemma tasksById_update:
  assumes "i < length ts" and "task_id t' = task_id (ts ! i)"
    and "tasksById (ts[i := t']) pid = Some p'"
  shows "\<exists>j<length ts. p' = ts[i := t'] ! j \<and> tasksById ts pid = Some (ts ! j)"
proof -
  have "map task_id ts = map task_id (ts[i := t'])"
    using assms(1,2) by (simp add: map_update list_update_same_conv[THEN iffD2])
  from tasksById_same_ids[OF this, of pid] assms(3) show ?thesis by auto
qed

lemma scan_ready:
  "scanPredecessors ts pr ps m0 = (True, mx) \<Longrightarrow>
     m0 \<le> mx \<and>
     (\<forall>pid\<in>set ps. \<forall>p. tasksById ts pid = Some p \<longrightarrow>
        task_id p \<in> pr \<and> (\<exists>e. computedEnd p = Some e \<and> e \<le> mx))"
proof (induction ps arbitrary: m0)
  case Nil
  then show ?case by simp
next
  case (Cons pid ps)
  show ?case
  proof (cases "tasksById ts pid")
    case None
    with Cons.prems have "scanPredecessors ts pr ps m0 = (True, mx)" by simp
    from Cons.IH[OF this] None show ?thesis by simp
  next
    case (Some p)
    with Cons.prems obtain e where e: "computedEnd p = Some e" and pr: "task_id p \<in> pr"
      and rest: "scanPredecessors ts pr ps (if e > m0 then e else m0) = (True, mx)"
      by (auto split: option.splits if_splits)
    from Cons.IH[OF rest] have "(if e > m0 then e else m0) \<le> mx"
      and tl: "\<forall>pid\<in>set ps. \<forall>p. tasksById ts pid = Some p \<longrightarrow>
        task_id p \<in> pr \<and> (\<exists>e. computedEnd p = Some e \<and> e \<le> mx)" by blast+
    then have "m0 \<le> mx" "e \<le> mx" by (auto split: if_splits)
    with tl Some e pr show ?thesis by auto
  qed
qed

lemma placeTask_Some:
  assumes "placeTask H cs t mx = Some t'"
  shows "\<exists>s e. t' = t\<lparr>computedStart := Some s, computedEnd := Some e\<rparr> \<and>
           businessDay H cs s \<and> (offsetNonneg t \<longrightarrow> mx \<le> s) \<and>
           (if durationWeeks t = 0 then e = s
            else addBusinessDays H cs \<lfloor>durationWeeks t * 5\<rfloor> s = Some e)"
proof -
  define c where "c = (case manualStartOffset t of None \<Rightarrow> mx
                       | Some off \<Rightarrow> if off \<noteq> 0 then mx + off else mx)"
  have c: "offsetNonneg t \<longrightarrow> mx \<le> c"
    by (auto simp: c_def offsetNonneg_def split: option.splits)
  from assms obtain s where s: "roundToBusinessDay H cs c = Some s"
    by (auto simp: placeTask_def Let_def c_def split: option.splits)
  from round_sound[OF s] c have "businessDay H cs s" "offsetNonneg t \<longrightarrow> mx \<le> s" by auto
  with assms s show ?thesis
    by (auto simp: placeTask_def Let_def c_def[symmetric] split: option.splits if_splits)
qed

lemma placeTask_total:
  assumes "calendar_ok H cs" and "walkCounted t"
  shows "\<exists>t'. placeTask H cs t mx = Some t'"
proof -
  define c where "c = (case manualStartOffset t of None \<Rightarrow> mx
                       | Some off \<Rightarrow> if off \<noteq> 0 then mx + off else mx)"
  from round_total[OF assms(1), of c] obtain s where s: "roundToBusinessDay H cs c = Some s"
    by blast
  from assms(2) have "\<lfloor>durationWeeks t * 5\<rfloor> \<le> 9007199254740992"
    by (simp add: walkCounted_def)
  from add_total[OF assms(1) this, of s] obtain e
    where "addBusinessDays H cs \<lfloor>durationWeeks t * 5\<rfloor> s = Some e" by blast
  with s show ?thesis by (simp add: placeTask_def Let_def c_def[symmetric])
qed

lemma placeTask_counted:
  assumes "placeTask H cs t mx = Some t'"
  shows "walkCounted t' = walkCounted t"
proof -
  from placeTask_Some[OF assms] obtain s e
    where "t' = t\<lparr>computedStart := Some s, computedEnd := Some e\<rparr>" by blast
  then show ?thesis by (simp add: walkCounted_def)
qed


lemma sched_invI:
  assumes "length ts = length ts0"
    and "\<And>k. k < length ts \<Longrightarrow>
      ts ! k = (ts0 ! k)\<lparr>computedStart := computedStart (ts ! k), computedEnd := computedEnd (ts ! k)\<rparr>"
    and "\<And>k. k < length ts \<Longrightarrow> placed H cs (ts ! k)"
    and "\<And>k. k < length ts \<Longrightarrow> computedStart (ts ! k) \<noteq> None \<Longrightarrow> task_id (ts ! k) \<in> pr"
    and "\<And>k j. k < length ts \<Longrightarrow> j < length ts \<Longrightarrow> computedStart (ts ! k) \<noteq> None \<Longrightarrow>
      computedStart (ts ! j) \<noteq> None \<Longrightarrow> task_id (ts ! k) = task_id (ts ! j) \<Longrightarrow> k = j"
    and "\<And>k pid p. k < length ts \<Longrightarrow> computedStart (ts ! k) \<noteq> None \<Longrightarrow>
      pid \<in> set (predecessors (ts ! k)) \<Longrightarrow> tasksById ts pid = Some p \<Longrightarrow>
      pid \<in> pr \<and> (\<exists>e. computedEnd p = Some e \<and>
        (offsetNonneg (ts ! k) \<longrightarrow> e \<le> the (computedStart (ts ! k))))"
  shows "sched_inv H cs ts0 (ts, pr)"
  unfolding sched_inv_def Let_def fst_conv snd_conv
  using assms by blast

lemma sched_inv_len: "sched_inv H cs ts0 (ts, pr) \<Longrightarrow> length ts = length ts0"
  by (simp add: sched_inv_def Let_def)

lemma sched_inv_static:
  "sched_inv H cs ts0 (ts, pr) \<Longrightarrow> k < length ts \<Longrightarrow>
     ts ! k = (ts0 ! k)\<lparr>computedStart := computedStart (ts ! k), computedEnd := computedEnd (ts ! k)\<rparr>"
  by (simp add: sched_inv_def Let_def)

lemma sched_inv_placed:
  "sched_inv H cs ts0 (ts, pr) \<Longrightarrow> k < length ts \<Longrightarrow> placed H cs (ts ! k)"
  by (simp add: sched_inv_def Let_def)

lemma sched_inv_processed:
  "sched_inv H cs ts0 (ts, pr) \<Longrightarrow> k < length ts \<Longrightarrow> computedStart (ts ! k) \<noteq> None \<Longrightarrow>
     task_id (ts ! k) \<in> pr"
  by (simp add: sched_inv_def Let_def)

lemma sched_inv_unique:
  "sched_inv H cs ts0 (ts, pr) \<Longrightarrow> k < length ts \<Longrightarrow> j < length ts \<Longrightarrow>
     computedStart (ts ! k) \<noteq> None \<Longrightarrow> computedStart (ts ! j) \<noteq> None \<Longrightarrow>
     task_id (ts ! k) = task_id (ts ! j) \<Longrightarrow> k = j"
  unfolding sched_inv_def Let_def fst_conv snd_conv by blast

lemma sched_inv_preds:
  "sched_inv H cs ts0 (ts, pr) \<Longrightarrow> k < length ts \<Longrightarrow> computedStart (ts ! k) \<noteq> None \<Longrightarrow>
     pid \<in> set (predecessors (ts ! k)) \<Longrightarrow> tasksById ts pid = Some p \<Longrightarrow>
     pid \<in> pr \<and> (\<exists>e. computedEnd p = Some e \<and>
       (offsetNonneg (ts ! k) \<longrightarrow> e \<le> the (computedStart (ts ! k))))"
  unfolding sched_inv_def Let_def fst_conv snd_conv by blast

lemma visitTask_cases:
  assumes "visitTask H sd cs i st = Some st'"
  obtains (skip) "st' = st"
  | (place) mx t' where "task_id (st_tasks st ! i) \<notin> st_processed st"
      "scanPredecessors (st_tasks st) (st_processed st) (predecessors (st_tasks st ! i)) sd = (True, mx)"
      "placeTask H cs (st_tasks st ! i) mx = Some t'"
      "st' = \<lparr>st_tasks = (st_tasks st)[i := t'],
              st_processed = insert (task_id (st_tasks st ! i)) (st_processed st),
              st_progressMade = True\<rparr>"
  using assms unfolding visitTask_def Let_def
  by (auto split: if_splits prod.splits bool.splits option.splits)

lemma visitTask_inv:
  assumes inv: "sched_inv H cs ts0 (st_tasks st, st_processed st)"
    and i: "i < length (st_tasks st)"
    and visit: "visitTask H sd cs i st = Some st'"
  shows "sched_inv H cs ts0 (st_tasks st', st_processed st')"
  using visit
proof (cases rule: visitTask_cases)
  case skip
  with inv show ?thesis by simp
next
  case (place mx t')
  define ts where "ts = st_tasks st"
  define pr where "pr = st_processed st"
  note inv' = inv[folded ts_def pr_def]
  have i': "i < length ts" using i by (simp add: ts_def)
  have fresh: "task_id (ts ! i) \<notin> pr" using place(1) by (simp add: ts_def pr_def)
  from placeTask_Some[OF place(3)] obtain s e where
    t': "t' = (ts ! i)\<lparr>computedStart := Some s, computedEnd := Some e\<rparr>"
    and bd: "businessDay H cs s" and off: "offsetNonneg (ts ! i) \<longrightarrow> mx \<le> s"
    and dur: "if durationWeeks (ts ! i) = 0 then e = s
              else addBusinessDays H cs \<lfloor>durationWeeks (ts ! i) * 5\<rfloor> s = Some e"
    unfolding ts_def by blast
  from scan_ready[OF place(2)] have
    ready: "\<And>pid p. pid \<in> set (predecessors (ts ! i)) \<Longrightarrow> tasksById ts pid = Some p \<Longrightarrow>
      task_id p \<in> pr \<and> (\<exists>e. computedEnd p = Some e \<and> e \<le> mx)"
    unfolding ts_def pr_def by blast
  have id': "task_id t' = task_id (ts ! i)" by (simp add: t')
  have nth: "\<And>k. k < length ts \<Longrightarrow> ts[i := t'] ! k = (if k = i then t' else ts ! k)"
    by (simp add: nth_list_update)
  have old: "\<And>k. k < length ts \<Longrightarrow> computedStart (ts[i := t'] ! k) \<noteq> None \<Longrightarrow> k \<noteq> i \<Longrightarrow>
      computedStart (ts ! k) \<noteq> None" by (simp add: nth)
  have "sched_inv H cs ts0 (ts[i := t'], insert (task_id (ts ! i)) pr)"
  proof (rule sched_invI)
    show "length (ts[i := t']) = length ts0" using sched_inv_len[OF inv'] by simp
  next
    fix k assume "k < length (ts[i := t'])"
    then have k: "k < length ts" by simp
    have "t' = (\<lambda>t. t\<lparr>computedStart := Some s, computedEnd := Some e\<rparr>) (ts ! i)"
      by (simp add: t')
    also have "ts ! i = (ts0 ! i)\<lparr>computedStart := computedStart (ts ! i),
        computedEnd := computedEnd (ts ! i)\<rparr>"
      by (rule sched_inv_static[OF inv' i'])
    finally have new: "t' = (ts0 ! i)\<lparr>computedStart := Some s, computedEnd := Some e\<rparr>"
      by simp
    show "ts[i := t'] ! k = (ts0 ! k)\<lparr>computedStart := computedStart (ts[i := t'] ! k),
        computedEnd := computedEnd (ts[i := t'] ! k)\<rparr>"
    proof (cases "k = i")
      case True
      with new i' show ?thesis by simp
    next
      case False
      with sched_inv_static[OF inv' k] k show ?thesis by (simp add: nth)
    qed
  next
    fix k assume "k < length (ts[i := t'])"
    then have k: "k < length ts" by simp
    show "placed H cs (ts[i := t'] ! k)"
    proof (cases "k = i")
      case True
      with bd dur i' show ?thesis by (auto simp: placed_def t' split: if_splits)
    next
      case False
      with sched_inv_placed[OF inv' k] k show ?thesis by (simp add: nth)
    qed
  next
    fix k assume "k < length (ts[i := t'])" and sch: "computedStart (ts[i := t'] ! k) \<noteq> None"
    then have k: "k < length ts" by simp
    show "task_id (ts[i := t'] ! k) \<in> insert (task_id (ts ! i)) pr"
    proof (cases "k = i")
      case True
      with i' show ?thesis by (simp add: t')
    next
      case False
      with sched_inv_processed[OF inv' k old[OF k sch False]] k show ?thesis by (simp add: nth)
    qed
  next
    fix k j assume "k < length (ts[i := t'])" "j < length (ts[i := t'])"
      and sk: "computedStart (ts[i := t'] ! k) \<noteq> None"
      and sj: "computedStart (ts[i := t'] ! j) \<noteq> None"
      and same: "task_id (ts[i := t'] ! k) = task_id (ts[i := t'] ! j)"
    then have k: "k < length ts" and j: "j < length ts" by simp_all
    have ids: "task_id (ts[i := t'] ! k) = task_id (ts ! k)" "task_id (ts[i := t'] ! j) = task_id (ts ! j)"
      using k j by (simp_all add: nth id')
    show "k = j"
    proof (rule ccontr)
      assume ne: "k \<noteq> j"
      show False
      proof (cases "k = i")
        case True
        with ne have ji: "j \<noteq> i" by simp
        from sched_inv_processed[OF inv' j old[OF j sj ji]] same ids True fresh
        show False by simp
      next
        case ki: False
        show False
        proof (cases "j = i")
          case True
          from sched_inv_processed[OF inv' k old[OF k sk ki]] same ids True fresh
          show False by simp
        next
          case False
          from sched_inv_unique[OF inv' k j old[OF k sk ki] old[OF j sj False]] same ids ne
          show False by simp
        qed
      qed
    qed
  next
    fix k pid p
    assume "k < length (ts[i := t'])" and sk: "computedStart (ts[i := t'] ! k) \<noteq> None"
      and pid: "pid \<in> set (predecessors (ts[i := t'] ! k))"
      and look: "tasksById (ts[i := t']) pid = Some p"
    then have k: "k < length ts" by simp
    from tasksById_update[OF i' id' look] obtain j where j: "j < length ts"
      and p: "p = ts[i := t'] ! j" and look0: "tasksById ts pid = Some (ts ! j)" by blast
    from tasksById_Some[OF look0] have idj: "task_id (ts ! j) = pid" by simp
    have preds: "predecessors (ts[i := t'] ! k) = predecessors (ts ! k)"
      using k by (cases "k = i") (simp_all add: nth_list_update t')
    show "pid \<in> insert (task_id (ts ! i)) pr \<and>
        (\<exists>e. computedEnd p = Some e \<and>
          (offsetNonneg (ts[i := t'] ! k) \<longrightarrow> e \<le> the (computedStart (ts[i := t'] ! k))))"
    proof (cases "k = i")
      case True
      from ready[OF _ look0] pid preds True obtain e' where
        e': "task_id (ts ! j) \<in> pr" "computedEnd (ts ! j) = Some e'" "e' \<le> mx" by auto
      from e'(1) fresh have "j \<noteq> i" by auto
      with p j have "p = ts ! j" by (simp add: nth)
      with e' idj True off i' show ?thesis
        by (auto simp: nth t' offsetNonneg_def)
    next
      case False
      from sched_inv_preds[OF inv' k old[OF k sk False] _ look0] pid preds obtain e' where
        e': "pid \<in> pr" "computedEnd (ts ! j) = Some e'"
        "offsetNonneg (ts ! k) \<longrightarrow> e' \<le> the (computedStart (ts ! k))" by auto
      from e'(1) idj fresh have "j \<noteq> i" by auto
      with p j have "p = ts ! j" by (simp add: nth)
      with e' False k show ?thesis by (simp add: nth)
    qed
  qed
  then show ?thesis by (simp add: place(4) ts_def pr_def)
qed

lemma sched_inv_fields:
  assumes "sched_inv H cs ts0 (ts, pr)" and "k < length ts"
  shows "task_id (ts ! k) = task_id (ts0 ! k)" and "predecessors (ts ! k) = predecessors (ts0 ! k)"
    and "durationWeeks (ts ! k) = durationWeeks (ts0 ! k)"
    and "originalDurationWeeks (ts ! k) = originalDurationWeeks (ts0 ! k)"
    and "compressionRatio (ts ! k) = compressionRatio (ts0 ! k)"
    and "manualStartOffset (ts ! k) = manualStartOffset (ts0 ! k)"
    and "phase (ts ! k) = phase (ts0 ! k)" and "name (ts ! k) = name (ts0 ! k)"
    and "serialNumber (ts ! k) = serialNumber (ts0 ! k)" and "task_type (ts ! k) = task_type (ts0 ! k)"
  using arg_cong[OF sched_inv_static[OF assms], of task_id]
    arg_cong[OF sched_inv_static[OF assms], of predecessors]
    arg_cong[OF sched_inv_static[OF assms], of durationWeeks]
    arg_cong[OF sched_inv_static[OF assms], of originalDurationWeeks]
    arg_cong[OF sched_inv_static[OF assms], of compressionRatio]
    arg_cong[OF sched_inv_static[OF assms], of manualStartOffset]
    arg_cong[OF sched_inv_static[OF assms], of phase]
    arg_cong[OF sched_inv_static[OF assms], of name]
    arg_cong[OF sched_inv_static[OF assms], of serialNumber]
    arg_cong[OF sched_inv_static[OF assms], of task_type]
  by simp_all

lemma visitTask_len:
  "visitTask H sd cs i st = Some st' \<Longrightarrow> length (st_tasks st') = length (st_tasks st)"
  by (erule visitTask_cases) simp_all

lemma visitTasks_inv:
  "sched_inv H cs ts0 (st_tasks st, st_processed st) \<Longrightarrow> \<forall>i\<in>set is. i < length (st_tasks st) \<Longrightarrow>
     visitTasks H sd cs is st = Some st' \<Longrightarrow> sched_inv H cs ts0 (st_tasks st', st_processed st')"
proof (induction "is" arbitrary: st)
  case Nil
  then show ?case by simp
next
  case (Cons i "is")
  from Cons.prems(3) obtain st1 where v: "visitTask H sd cs i st = Some st1"
    and rest: "visitTasks H sd cs is st1 = Some st'" by (auto split: option.splits)
  from Cons.prems(2) have i: "i < length (st_tasks st)" by simp
  from visitTask_inv[OF Cons.prems(1) i v] have inv1: "sched_inv H cs ts0 (st_tasks st1, st_processed st1)" .
  from visitTask_len[OF v] Cons.prems(2) have "\<forall>i\<in>set is. i < length (st_tasks st1)" by simp
  from Cons.IH[OF inv1 this rest] show ?case .
qed

lemma schedulePass_inv:
  assumes "sched_inv H cs ts0 tp" and "schedulePass H sd cs tp = Some st"
  shows "sched_inv H cs ts0 (st_tasks st, st_processed st)"
  using visitTasks_inv[of H cs ts0 "\<lparr>st_tasks = fst tp, st_processed = snd tp, st_progressMade = False\<rparr>"
      "[0..<length (fst tp)]" sd st] assms
  by (simp add: schedulePass_def)

lemma runPasses_inv:
  "sched_inv H cs ts0 tp \<Longrightarrow> runPasses H sd cs k tp = Some tp' \<Longrightarrow> sched_inv H cs ts0 tp'"
proof (induction k arbitrary: tp)
  case 0
  then show ?case by simp
next
  case (Suc k)
  from Suc.prems(2) obtain st where p: "schedulePass H sd cs tp = Some st"
    and r: "runPasses H sd cs k (st_tasks st, st_processed st) = Some tp'"
    by (auto split: option.splits)
  from Suc.IH[OF schedulePass_inv[OF Suc.prems(1) p] r] show ?case .
qed

lemma visitTask_counted:
  assumes "visitTask H sd cs i st = Some st'" and "\<forall>t\<in>set (st_tasks st). walkCounted t"
    and "i < length (st_tasks st)"
  shows "\<forall>t\<in>set (st_tasks st'). walkCounted t"
  using assms(1)
proof (cases rule: visitTask_cases)
  case skip
  with assms(2) show ?thesis by simp
next
  case (place mx t')
  from assms(2,3) have "walkCounted (st_tasks st ! i)" by simp
  with placeTask_counted[OF place(3)] have "walkCounted t'" by simp
  with assms(2) place(4) show ?thesis by (auto dest: set_update_subset_insert[THEN subsetD])
qed

lemma visitTask_total:
  assumes ok: "calendar_ok H cs" and counted: "\<forall>t\<in>set (st_tasks st). walkCounted t"
    and i: "i < length (st_tasks st)"
  shows "\<exists>st'. visitTask H sd cs i st = Some st'"
proof -
  obtain b mx where sc: "scanPredecessors (st_tasks st) (st_processed st)
      (predecessors (st_tasks st ! i)) sd = (b, mx)" by (cases "scanPredecessors (st_tasks st)
      (st_processed st) (predecessors (st_tasks st ! i)) sd") auto
  from counted i have "walkCounted (st_tasks st ! i)" by simp
  from placeTask_total[OF ok this, of mx] obtain t' where
    "placeTask H cs (st_tasks st ! i) mx = Some t'" by blast
  with sc show ?thesis by (simp add: visitTask_def Let_def split: bool.splits)
qed

lemma visitTasks_total:
  "calendar_ok H cs \<Longrightarrow> \<forall>t\<in>set (st_tasks st). walkCounted t \<Longrightarrow>
     \<forall>i\<in>set is. i < length (st_tasks st) \<Longrightarrow>
     \<exists>st'. visitTasks H sd cs is st = Some st' \<and> (\<forall>t\<in>set (st_tasks st'). walkCounted t) \<and>
       length (st_tasks st') = length (st_tasks st)"
proof (induction "is" arbitrary: st)
  case Nil
  then show ?case by simp
next
  case (Cons i "is")
  from Cons.prems(3) have i: "i < length (st_tasks st)" by simp
  from visitTask_total[OF Cons.prems(1,2) i, of sd] obtain st1 where
    v: "visitTask H sd cs i st = Some st1" by blast
  note c1 = visitTask_counted[OF v Cons.prems(2) i] and l1 = visitTask_len[OF v]
  from Cons.prems(3) l1 have "\<forall>i\<in>set is. i < length (st_tasks st1)" by simp
  from Cons.IH[OF Cons.prems(1) c1 this] v l1 show ?case by simp
qed

lemma schedulePass_total:
  "calendar_ok H cs \<Longrightarrow> \<forall>t\<in>set (fst tp). walkCounted t \<Longrightarrow>
     \<exists>st. schedulePass H sd cs tp = Some st \<and> (\<forall>t\<in>set (st_tasks st). walkCounted t)"
  using visitTasks_total[of H cs "\<lparr>st_tasks = fst tp, st_processed = snd tp,
      st_progressMade = False\<rparr>" "[0..<length (fst tp)]" sd]
  unfolding schedulePass_def by auto

lemma scheduleLoop_total:
  "calendar_ok H cs \<Longrightarrow> \<forall>t\<in>set (fst tp). walkCounted t \<Longrightarrow>
     \<exists>r. scheduleLoop H sd cs mx it tp = Some r"
proof (induction H sd cs mx it tp rule: scheduleLoop.induct)
  case (1 H sd cs mx it tp)
  from schedulePass_total[OF "1.prems", of sd] obtain st where
    p: "schedulePass H sd cs tp = Some st" and c: "\<forall>t\<in>set (st_tasks st). walkCounted t"
    by blast
  show ?case
  proof (cases "card (snd tp) < length (fst tp) \<and> \<not> mx < it + 1 \<and> st_progressMade st")
    case True
    with "1.IH"[of st] p c "1.prems"(1) show ?thesis
      by (subst scheduleLoop.simps) simp
  next
    case False
    with p show ?thesis by (subst scheduleLoop.simps) auto
  qed
qed

lemma scheduleLoop_passes:
  "scheduleLoop H sd cs mx it tp = Some r \<Longrightarrow>
     \<exists>k. (k = 0 \<or> it + k \<le> mx) \<and> runPasses H sd cs k tp = Some r"
proof (induction H sd cs mx it tp rule: scheduleLoop.induct)
  case (1 H sd cs mx it tp)
  show ?case
  proof (cases "card (snd tp) < length (fst tp) \<and> \<not> mx < it + 1")
    case False
    with "1.prems" have "r = tp" by (subst (asm) scheduleLoop.simps) (auto split: if_splits)
    then show ?thesis by (intro exI[of _ 0]) simp
  next
    case True
    with "1.prems" obtain st where p: "schedulePass H sd cs tp = Some st"
      by (subst (asm) scheduleLoop.simps) (auto split: option.splits)
    show ?thesis
    proof (cases "st_progressMade st")
      case False
      with "1.prems" True p have "r = (st_tasks st, st_processed st)"
        by (subst (asm) scheduleLoop.simps) simp
      with p True show ?thesis by (intro exI[of _ 1]) simp
    next
      case prog: True
      with "1.prems" True p have
        "scheduleLoop H sd cs mx (it + 1) (st_tasks st, st_processed st) = Some r"
        by (subst (asm) scheduleLoop.simps) simp
      from "1.IH"[OF _ _ p _ this] True prog obtain k where
        k: "k = 0 \<or> it + 1 + k \<le> mx" "runPasses H sd cs k (st_tasks st, st_processed st) = Some r"
        by auto
      with p True show ?thesis by (intro exI[of _ "Suc k"]) auto
    qed
  qed
qed

lemma resetComputed_nth:
  "k < length ts \<Longrightarrow> resetComputed ts ! k =
     (ts ! k)\<lparr>serialNumber := Some (k + 1), computedStart := None, computedEnd := None\<rparr>"
  by (simp add: resetComputed_def)

lemma resetComputed_len: "length (resetComputed ts) = length ts"
  by (simp add: resetComputed_def)

lemma sched_inv_init: "sched_inv H cs (resetComputed ts) (resetComputed ts, {})"
  by (rule sched_invI) (simp_all add: resetComputed_len resetComputed_nth placed_def)

lemma stuckSet_reset:
  assumes "stuckSet S ts"
  shows "stuckSet S (resetComputed ts)"
  unfolding stuckSet_def
proof (intro ballI impI)
  fix t assume "t \<in> set (resetComputed ts)" and S: "task_id t \<in> S"
  then obtain k where k: "k < length ts" and t: "t = resetComputed ts ! k"
    by (auto simp: in_set_conv_nth resetComputed_len)
  from t k have same: "task_id t = task_id (ts ! k)" "predecessors t = predecessors (ts ! k)"
    by (simp_all add: resetComputed_nth)
  from k have "ts ! k \<in> set ts" by simp
  with assms S same obtain pid q where pid: "pid \<in> set (predecessors (ts ! k))" "pid \<in> S"
    and q: "q \<in> set ts" "task_id q = pid" unfolding stuckSet_def by metis
  from q(1) obtain j where j: "j < length ts" "q = ts ! j" by (auto simp: in_set_conv_nth)
  from j(1) have "resetComputed ts ! j \<in> set (resetComputed ts)"
    by (intro nth_mem) (simp add: resetComputed_len)
  moreover from j q(2) have "task_id (resetComputed ts ! j) = pid"
    by (simp add: resetComputed_nth)
  ultimately have "\<exists>q\<in>set (resetComputed ts). task_id q = pid" by blast
  with pid same show "\<exists>predId\<in>set (predecessors t). predId \<in> S \<and>
      (\<exists>q\<in>set (resetComputed ts). task_id q = predId)" by auto
qed

lemma visitTask_stuck:
  assumes inv: "sched_inv H cs ts0 (st_tasks st, st_processed st)"
    and stuck: "stuckSet S ts0" and disj: "st_processed st \<inter> S = {}"
    and i: "i < length (st_tasks st)"
    and visit: "visitTask H sd cs i st = Some st'"
  shows "st_processed st' \<inter> S = {}"
  using visit
proof (cases rule: visitTask_cases)
  case skip
  with disj show ?thesis by simp
next
  case (place mx t')
  define ts where "ts = st_tasks st"
  define pr where "pr = st_processed st"
  note inv' = inv[folded ts_def pr_def]
  have i': "i < length ts" using i by (simp add: ts_def)
  have len: "length ts = length ts0" by (rule sched_inv_len[OF inv'])
  have "task_id (ts ! i) \<notin> S"
  proof
    assume inS: "task_id (ts ! i) \<in> S"
    from i' len have "ts0 ! i \<in> set ts0" by simp
    with stuck inS sched_inv_fields(1,2)[OF inv' i'] obtain pid q where
      pid: "pid \<in> set (predecessors (ts ! i))" "pid \<in> S" and q: "q \<in> set ts0" "task_id q = pid"
      unfolding stuckSet_def by metis
    from q(1) obtain j where j: "j < length ts0" "q = ts0 ! j" by (auto simp: in_set_conv_nth)
    with len sched_inv_fields(1)[OF inv', of j] q(2) have "ts ! j \<in> set ts" "task_id (ts ! j) = pid"
      by simp_all
    with tasksById_exists[of "ts ! j" ts] obtain p0 where p0: "tasksById ts pid = Some p0" by auto
    from scan_ready[OF place(2)] pid(1) p0 have "task_id p0 \<in> pr" by (auto simp: ts_def pr_def)
    with tasksById_Some[OF p0] pid(2) disj show False by (auto simp: pr_def)
  qed
  with disj place(4) show ?thesis by (simp add: ts_def)
qed

lemma visitTasks_stuck:
  "sched_inv H cs ts0 (st_tasks st, st_processed st) \<Longrightarrow> stuckSet S ts0 \<Longrightarrow>
     st_processed st \<inter> S = {} \<Longrightarrow> \<forall>i\<in>set is. i < length (st_tasks st) \<Longrightarrow>
     visitTasks H sd cs is st = Some st' \<Longrightarrow> st_processed st' \<inter> S = {}"
proof (induction "is" arbitrary: st)
  case Nil
  then show ?case by simp
next
  case (Cons i "is")
  from Cons.prems(5) obtain st1 where v: "visitTask H sd cs i st = Some st1"
    and rest: "visitTasks H sd cs is st1 = Some st'" by (auto split: option.splits)
  from Cons.prems(4) have i: "i < length (st_tasks st)" by simp
  have inv1: "sched_inv H cs ts0 (st_tasks st1, st_processed st1)"
    by (rule visitTask_inv[OF Cons.prems(1) i v])
  have disj1: "st_processed st1 \<inter> S = {}"
    by (rule visitTask_stuck[OF Cons.prems(1,2,3) i v])
  from visitTask_len[OF v] Cons.prems(4) have "\<forall>i\<in>set is. i < length (st_tasks st1)" by simp
  from Cons.IH[OF inv1 Cons.prems(2) disj1 this rest] show ?case .
qed

lemma schedulePass_stuck:
  assumes "sched_inv H cs ts0 tp" and "stuckSet S ts0" and "snd tp \<inter> S = {}"
    and "schedulePass H sd cs tp = Some st"
  shows "st_processed st \<inter> S = {}"
  using visitTasks_stuck[of H cs ts0 "\<lparr>st_tasks = fst tp, st_processed = snd tp, st_progressMade = False\<rparr>"
      S "[0..<length (fst tp)]" sd st] assms
  by (simp add: schedulePass_def)

lemma runPasses_stuck:
  "sched_inv H cs ts0 tp \<Longrightarrow> stuckSet S ts0 \<Longrightarrow> snd tp \<inter> S = {} \<Longrightarrow>
     runPasses H sd cs k tp = Some tp' \<Longrightarrow> snd tp' \<inter> S = {}"
proof (induction k arbitrary: tp)
  case 0
  then show ?case by simp
next
  case (Suc k)
  from Suc.prems(4) obtain st where p: "schedulePass H sd cs tp = Some st"
    and r: "runPasses H sd cs k (st_tasks st, st_processed st) = Some tp'"
    by (auto split: option.splits)
  from Suc.IH[OF schedulePass_inv[OF Suc.prems(1) p] Suc.prems(2) _ r]
    schedulePass_stuck[OF Suc.prems(1,2,3) p] show ?case by simp
qed

text \<open>What a run of the scheduler that returns has done.\<close>

lemma calculateSchedule_Some:
  assumes "calculateSchedule H p = Some p'"
  obtains k pr where "p' = p\<lparr>tasks := tasks p'\<rparr>" and "k \<le> 3 * length (tasks p)"
    and "runPasses H (startDate p) (country p) k (resetComputed (tasks p), {}) = Some (tasks p', pr)"
    and "sched_inv H (country p) (resetComputed (tasks p)) (tasks p', pr)"
    and "\<And>S. stuckSet S (tasks p) \<Longrightarrow> pr \<inter> S = {}"
proof -
  from assms obtain r where loop: "scheduleLoop H (startDate p) (country p)
      (length (resetComputed (tasks p)) * 3) 0 (resetComputed (tasks p), {}) = Some r"
    and p': "p' = p\<lparr>tasks := fst r\<rparr>"
    by (auto simp: calculateSchedule_def Let_def split: option.splits)
  from scheduleLoop_passes[OF loop] obtain k where k: "k \<le> 3 * length (tasks p)"
    and run: "runPasses H (startDate p) (country p) k (resetComputed (tasks p), {}) = Some r"
    by (auto simp: resetComputed_len mult.commute)
  have inv: "sched_inv H (country p) (resetComputed (tasks p)) r"
    by (rule runPasses_inv[OF sched_inv_init run])
  have st: "\<And>S. stuckSet S (tasks p) \<Longrightarrow> snd r \<inter> S = {}"
    using runPasses_stuck[OF sched_inv_init stuckSet_reset _ run] by simp
  show thesis
    using that[of k "snd r"] p' k run inv st by simp
qed

lemma resetComputed_counted:
  "(\<forall>t\<in>set (resetComputed ts). walkCounted t) = (\<forall>t\<in>set ts. walkCounted t)"
  by (simp add: all_set_conv_all_nth resetComputed_len resetComputed_nth walkCounted_def)

lemma calculateSchedule_total:
  assumes "calendar_ok H (country p)" and "\<forall>t\<in>set (tasks p). walkCounted t"
  shows "\<exists>p'. calculateSchedule H p = Some p'"
proof -
  from assms(2) have "\<forall>t\<in>set (fst (resetComputed (tasks p), {}::string set)). walkCounted t"
    by (simp add: resetComputed_counted)
  from scheduleLoop_total[OF assms(1) this, of "startDate p"
      "length (resetComputed (tasks p)) * 3" 0]
  show ?thesis by (auto simp: calculateSchedule_def Let_def)
qed

lemma weekday_later: "\<exists>d'\<ge>d. \<not> isWeekend d'"
proof -
  have "\<exists>d'\<ge>d. (d' + 4) mod 7 = (1::int)" by presburger
  then show ?thesis by (auto simp: isWeekend_def getDay_def)
qed

lemma calendar_ok_bounded:
  assumes "\<And>d. B < d \<Longrightarrow> \<not> isHoliday H d cs"
  shows "calendar_ok H cs"
  unfolding calendar_ok_def
proof
  fix d
  from weekday_later[of "max d (B + 1)"] obtain d' where "max d (B + 1) \<le> d'" "\<not> isWeekend d'"
    by blast
  with assms[of d'] show "\<exists>d'\<ge>d. businessDay H cs d'"
    by (intro exI[of _ d']) (simp add: businessDay_def)
qed

section \<open>Sample runs\<close>

lemma sampleHolidays_ok: "calendar_ok sampleHolidays [''US'']"
  by (rule calendar_ok_bounded[where B = 19723]) (simp add: sampleHolidays_def)

lemmas sched_eval = calculateSchedule_def resetComputed_def schedulePass_def visitTask_def
  placeTask_def tasksById_def roundToBusinessDay.simps addBusinessDays.simps decrement_def
  isWeekend_def getDay_def upt_rec sampleHolidays_def sampleTask_def sampleProject_def
  scheduleLoop.simps

lemma run_single:
  "calculateSchedule sampleHolidays (sampleProject [sampleTask ''A'' 1 [] None]) =
     Some (sampleProject [(sampleTask ''A'' 1 [] None)
       \<lparr>serialNumber := Some 1, computedStart := Some 19724, computedEnd := Some 19731\<rparr>])"
  by (simp add: sched_eval)



lemma run_cycle:
  "calculateSchedule sampleHolidays
     (sampleProject [sampleTask ''A'' 1 [''B''] None, sampleTask ''B'' 2 [''A''] None]) =
     Some (sampleProject
       [(sampleTask ''A'' 1 [''B''] None)\<lparr>serialNumber := Some 1\<rparr>,
        (sampleTask ''B'' 2 [''A''] None)\<lparr>serialNumber := Some 2\<rparr>])"
  by (simp add: sched_eval)


lemma run_cycle_free:
  "calculateSchedule sampleHolidays
     (sampleProject [sampleTask ''A'' 1 [''B''] None, sampleTask ''B'' 2 [''A''] None,
        sampleTask ''C'' 1 [] None]) =
     Some (sampleProject
       [(sampleTask ''A'' 1 [''B''] None)\<lparr>serialNumber := Some 1\<rparr>,
        (sampleTask ''B'' 2 [''A''] None)\<lparr>serialNumber := Some 2\<rparr>,
        (sampleTask ''C'' 1 [] None)
          \<lparr>serialNumber := Some 3, computedStart := Some 19724, computedEnd := Some 19731\<rparr>])"
  by (simp add: sched_eval)

lemma passes_cycle_free:
  "runPasses sampleHolidays 19723 [''US''] 2
     (resetComputed [sampleTask ''A'' 1 [''B''] None, sampleTask ''B'' 2 [''A''] None,
        sampleTask ''C'' 1 [] None], {}) =
     Some ([(sampleTask ''A'' 1 [''B''] None)\<lparr>serialNumber := Some 1\<rparr>,
        (sampleTask ''B'' 2 [''A''] None)\<lparr>serialNumber := Some 2\<rparr>,
        (sampleTask ''C'' 1 [] None)
          \<lparr>serialNumber := Some 3, computedStart := Some 19724, computedEnd := Some 19731\<rparr>],
       {''C''})"
  by (simp add: sched_eval numeral_2_eq_2)

text \<open>
  A walk of \<open>10^16\<close> working days: the decrement leaves the counter where it is.
\<close>

lemma walk_stuck: "addBusinessDays H cs 10000000000000000 d = None"
  by (rule add_stuck) (simp_all add: decrement_def)

lemma run_stuck:
  "calculateSchedule sampleHolidays (sampleProject [sampleTask ''A'' 2000000000000000 [] None]) = None"
  by (simp add: calculateSchedule_def resetComputed_def schedulePass_def visitTask_def
      placeTask_def tasksById_def roundToBusinessDay.simps walk_stuck isWeekend_def getDay_def
      upt_rec sampleHolidays_def sampleTask_def sampleProject_def scheduleLoop.simps)








section \<open>Properties of the scheduler\<close>

lemma scheduled_task_placed:
  assumes "calculateSchedule H p = Some p'" and "t \<in> set (tasks p')"
  shows "placed H (country p) t"
proof -
  from assms(1) obtain k pr where
    inv: "sched_inv H (country p) (resetComputed (tasks p)) (tasks p', pr)"
    by (rule calculateSchedule_Some)
  from assms(2) obtain i where "i < length (tasks p')" "t = tasks p' ! i"
    by (auto simp: in_set_conv_nth)
  with sched_inv_placed[OF inv] show ?thesis by simp
qed

text \<open>
  C7. After a scheduling run, every task that has a \<open>computedStart\<close> has it on a business
  day: not on a weekend day and not on a holiday of one of the project's jurisdictions. The
  run returns whenever business days do not run out and no task has more than \<open>2^53\<close>
  working days to walk.
\<close>

theorem computedStart_on_business_day:
  "(calendar_ok H (country p) \<and> (\<forall>t\<in>set (tasks p). walkCounted t) \<longrightarrow>
      calculateSchedule H p \<noteq> None) \<and>
   (\<forall>p'. calculateSchedule H p = Some p' \<longrightarrow>
      (\<forall>t\<in>set (tasks p'). \<forall>s. computedStart t = Some s \<longrightarrow>
         \<not> isWeekend s \<and> \<not> isHoliday H s (country p)))"
proof (intro conjI allI impI ballI)
  assume "calendar_ok H (country p) \<and> (\<forall>t\<in>set (tasks p). walkCounted t)"
  with calculateSchedule_total[of H p] show "calculateSchedule H p \<noteq> None" by auto
next
  fix p' t s
  assume run: "calculateSchedule H p = Some p'" "t \<in> set (tasks p')"
    and s: "computedStart t = Some s"
  from run have "placed H (country p) t" by (rule scheduled_task_placed)
  with s have "businessDay H (country p) s" by (simp add: placed_def)
  then show "\<not> isWeekend s" "\<not> isHoliday H s (country p)" by (simp_all add: businessDay_def)
qed

theorem computedStart_on_business_day_witness:
  "calendar_ok sampleHolidays [''US''] \<and> walkCounted (sampleTask ''A'' 1 [] None) \<and>
   calculateSchedule sampleHolidays (sampleProject [sampleTask ''A'' 1 [] None]) =
     Some (sampleProject [(sampleTask ''A'' 1 [] None)
       \<lparr>serialNumber := Some 1, computedStart := Some 19724, computedEnd := Some 19731\<rparr>]) \<and>
   \<not> isWeekend 19724 \<and> \<not> isHoliday sampleHolidays 19724 [''US'']"
  using computedStart_on_business_day[of sampleHolidays "sampleProject [sampleTask ''A'' 1 [] None]"]
    sampleHolidays_ok run_single
  by (simp add: sampleProject_def walkCounted_def sampleTask_def)

text \<open>
  C10. After a scheduling run, every task that has a \<open>computedEnd\<close>, whatever its duration,
  has it on a business day. The run returns whenever business days do not run out and no task has more than
  \<open>2^53\<close> working days to walk.
\<close>

theorem computedEnd_on_business_day:
  "(calendar_ok H (country p) \<and> (\<forall>t\<in>set (tasks p). walkCounted t) \<longrightarrow>
      calculateSchedule H p \<noteq> None) \<and>
   (\<forall>p'. calculateSchedule H p = Some p' \<longrightarrow>
      (\<forall>t\<in>set (tasks p'). \<forall>e. computedEnd t = Some e \<longrightarrow>
         \<not> isWeekend e \<and> \<not> isHoliday H e (country p)))"
proof (intro conjI allI impI ballI)
  assume "calendar_ok H (country p) \<and> (\<forall>t\<in>set (tasks p). walkCounted t)"
  with calculateSchedule_total[of H p] show "calculateSchedule H p \<noteq> None" by auto
next
  fix p' t e
  assume run: "calculateSchedule H p = Some p'" "t \<in> set (tasks p')"
    and e: "computedEnd t = Some e"
  from run have pl: "placed H (country p) t" by (rule scheduled_task_placed)
  with e obtain s where s: "computedStart t = Some s" "businessDay H (country p) s"
    by (cases "computedStart t") (auto simp: placed_def)
  have "businessDay H (country p) e"
  proof (cases "durationWeeks t = 0")
    case True
    with pl s e show ?thesis by (simp add: placed_def)
  next
    case False
    with pl s e have a: "addBusinessDays H (country p) \<lfloor>durationWeeks t * 5\<rfloor> s = Some e"
      by (simp add: placed_def)
    show ?thesis
    proof (cases "0 < \<lfloor>durationWeeks t * 5\<rfloor>")
      case True
      with add_sound[OF a] show ?thesis by simp
    next
      case False
      with add_sound[OF a] s(2) show ?thesis by simp
    qed
  qed
  then show "\<not> isWeekend e" "\<not> isHoliday H e (country p)" by (simp_all add: businessDay_def)
qed

theorem computedEnd_on_business_day_witness:
  "calendar_ok sampleHolidays [''US''] \<and> walkCounted (sampleTask ''A'' 1 [] None) \<and>
   calculateSchedule sampleHolidays (sampleProject [sampleTask ''A'' 1 [] None]) \<noteq> None \<and>
   (sampleTask ''A'' 1 [] None)
       \<lparr>serialNumber := Some 1, computedStart := Some 19724, computedEnd := Some 19731\<rparr>
     \<in> set (tasks (the (calculateSchedule sampleHolidays (sampleProject [sampleTask ''A'' 1 [] None])))) \<and>
   \<not> isWeekend 19731 \<and> \<not> isHoliday sampleHolidays 19731 [''US'']"
  using computedEnd_on_business_day[of sampleHolidays "sampleProject [sampleTask ''A'' 1 [] None]"]
    sampleHolidays_ok run_single
  by (simp add: sampleProject_def walkCounted_def sampleTask_def)








text \<open>
  C4, as the code has it. Whenever business days do not run out and no task has more than
  \<open>2^53\<close> working days to walk (\<open>floor(durationWeeks * 5) \<le> 2^53\<close>), \<open>calculateSchedule\<close>
  returns, after at most \<open>3 * N\<close> full passes over its \<open>N\<close> tasks. A task is scheduled only
  when each of its predecessor ids that the project carries has been resolved to a task with
  an end date; so the tasks of a stuck set of ids, such as the two tasks of a mutual cycle,
  are left with \<open>computedStart\<close> and \<open>computedEnd\<close> unset.
\<close>

theorem calculateSchedule_terminates:
  assumes "calendar_ok H (country p)" and "\<forall>t\<in>set (tasks p). walkCounted t"
  shows "\<exists>p' k pr. calculateSchedule H p = Some p' \<and> k \<le> 3 * length (tasks p) \<and>
     runPasses H (startDate p) (country p) k (resetComputed (tasks p), {}) = Some (tasks p', pr) \<and>
     (\<forall>S. stuckSet S (tasks p) \<longrightarrow>
        (\<forall>t\<in>set (tasks p'). task_id t \<in> S \<longrightarrow> computedStart t = None \<and> computedEnd t = None)) \<and>
     (\<forall>t\<in>set (tasks p'). computedStart t \<noteq> None \<longrightarrow>
        (\<forall>predId\<in>set (predecessors t). \<forall>q. tasksById (tasks p') predId = Some q \<longrightarrow>
           computedEnd q \<noteq> None))"
proof -
  from calculateSchedule_total[OF assms] obtain p' where run: "calculateSchedule H p = Some p'"
    by blast
  obtain k pr where k: "k \<le> 3 * length (tasks p)"
    and passes: "runPasses H (startDate p) (country p) k (resetComputed (tasks p), {}) =
      Some (tasks p', pr)"
    and inv: "sched_inv H (country p) (resetComputed (tasks p)) (tasks p', pr)"
    and stuck: "\<And>S. stuckSet S (tasks p) \<Longrightarrow> pr \<inter> S = {}"
    by (rule calculateSchedule_Some[OF run]) blast
  have a: "computedStart t = None \<and> computedEnd t = None"
    if "stuckSet S (tasks p)" "t \<in> set (tasks p')" "task_id t \<in> S" for S t
  proof -
    from that(2) obtain i where i: "i < length (tasks p')" "t = tasks p' ! i"
      by (auto simp: in_set_conv_nth)
    from sched_inv_processed[OF inv i(1)] stuck[OF that(1)] that(3) i(2)
    have "computedStart t = None" by auto
    with sched_inv_placed[OF inv i(1)] i(2) show ?thesis by (simp add: placed_def)
  qed
  have b: "computedEnd q \<noteq> None"
    if "t \<in> set (tasks p')" "computedStart t \<noteq> None" "predId \<in> set (predecessors t)"
      "tasksById (tasks p') predId = Some q" for t predId q
  proof -
    from that(1) obtain i where i: "i < length (tasks p')" "t = tasks p' ! i"
      by (auto simp: in_set_conv_nth)
    from sched_inv_preds[OF inv i(1) _ _ that(4)] that(2,3) i(2) show ?thesis by auto
  qed
  from run k passes a b show ?thesis by blast
qed

text \<open>
  Tasks A and B name each other as predecessor and task C stands alone: the first pass
  schedules C, the second makes no progress, and A and B are left unset.
\<close>

theorem calculateSchedule_terminates_witness:
  "calendar_ok sampleHolidays [''US''] \<and>
   walkCounted (sampleTask ''A'' 1 [''B''] None) \<and> walkCounted (sampleTask ''B'' 2 [''A''] None) \<and>
   walkCounted (sampleTask ''C'' 1 [] None) \<and>
   stuckSet {''A'', ''B''}
     [sampleTask ''A'' 1 [''B''] None, sampleTask ''B'' 2 [''A''] None, sampleTask ''C'' 1 [] None] \<and>
   calculateSchedule sampleHolidays
     (sampleProject [sampleTask ''A'' 1 [''B''] None, sampleTask ''B'' 2 [''A''] None,
        sampleTask ''C'' 1 [] None]) =
     Some (sampleProject
       [(sampleTask ''A'' 1 [''B''] None)\<lparr>serialNumber := Some 1\<rparr>,
        (sampleTask ''B'' 2 [''A''] None)\<lparr>serialNumber := Some 2\<rparr>,
        (sampleTask ''C'' 1 [] None)
          \<lparr>serialNumber := Some 3, computedStart := Some 19724, computedEnd := Some 19731\<rparr>]) \<and>
   runPasses sampleHolidays 19723 [''US''] 2
     (resetComputed [sampleTask ''A'' 1 [''B''] None, sampleTask ''B'' 2 [''A''] None,
        sampleTask ''C'' 1 [] None], {}) =
     Some ([(sampleTask ''A'' 1 [''B''] None)\<lparr>serialNumber := Some 1\<rparr>,
        (sampleTask ''B'' 2 [''A''] None)\<lparr>serialNumber := Some 2\<rparr>,
        (sampleTask ''C'' 1 [] None)
          \<lparr>serialNumber := Some 3, computedStart := Some 19724, computedEnd := Some 19731\<rparr>],
       {''C''}) \<and>
   (\<exists>k pr. k \<le> 9 \<and>
      runPasses sampleHolidays 19723 [''US''] k
        (resetComputed [sampleTask ''A'' 1 [''B''] None, sampleTask ''B'' 2 [''A''] None,
           sampleTask ''C'' 1 [] None], {}) =
      Some ([(sampleTask ''A'' 1 [''B''] None)\<lparr>serialNumber := Some 1\<rparr>,
        (sampleTask ''B'' 2 [''A''] None)\<lparr>serialNumber := Some 2\<rparr>,
        (sampleTask ''C'' 1 [] None)
          \<lparr>serialNumber := Some 3, computedStart := Some 19724, computedEnd := Some 19731\<rparr>],
       pr)) \<and>
   computedStart ((sampleTask ''A'' 1 [''B''] None)\<lparr>serialNumber := Some 1\<rparr>) = None \<and>
   computedEnd ((sampleTask ''A'' 1 [''B''] None)\<lparr>serialNumber := Some 1\<rparr>) = None \<and>
   computedStart ((sampleTask ''B'' 2 [''A''] None)\<lparr>serialNumber := Some 2\<rparr>) = None \<and>
   computedEnd ((sampleTask ''B'' 2 [''A''] None)\<lparr>serialNumber := Some 2\<rparr>) = None"
proof -
  let ?ts = "[sampleTask ''A'' 1 [''B''] None, sampleTask ''B'' 2 [''A''] None,
    sampleTask ''C'' 1 [] None]"
  have ok: "calendar_ok sampleHolidays (country (sampleProject ?ts))"
    using sampleHolidays_ok by (simp add: sampleProject_def)
  have counted: "walkCounted (sampleTask ''A'' 1 [''B''] None)"
    "walkCounted (sampleTask ''B'' 2 [''A''] None)" "walkCounted (sampleTask ''C'' 1 [] None)"
    by (simp_all add: walkCounted_def sampleTask_def)
  then have all: "\<forall>t\<in>set (tasks (sampleProject ?ts)). walkCounted t"
    by (simp add: sampleProject_def)
  have st: "stuckSet {''A'', ''B''} ?ts"
    by (simp add: stuckSet_def sampleTask_def)
  have unset: "computedStart ((sampleTask ''A'' 1 [''B''] None)\<lparr>serialNumber := Some 1\<rparr>) = None"
    "computedEnd ((sampleTask ''A'' 1 [''B''] None)\<lparr>serialNumber := Some 1\<rparr>) = None"
    "computedStart ((sampleTask ''B'' 2 [''A''] None)\<lparr>serialNumber := Some 2\<rparr>) = None"
    "computedEnd ((sampleTask ''B'' 2 [''A''] None)\<lparr>serialNumber := Some 2\<rparr>) = None"
    by (simp_all add: sampleTask_def)
  from calculateSchedule_terminates[OF ok all] run_cycle_free
  have "\<exists>k pr. k \<le> 9 \<and>
      runPasses sampleHolidays 19723 [''US''] k (resetComputed ?ts, {}) =
      Some ([(sampleTask ''A'' 1 [''B''] None)\<lparr>serialNumber := Some 1\<rparr>,
        (sampleTask ''B'' 2 [''A''] None)\<lparr>serialNumber := Some 2\<rparr>,
        (sampleTask ''C'' 1 [] None)
          \<lparr>serialNumber := Some 3, computedStart := Some 19724, computedEnd := Some 19731\<rparr>],
       pr)"
    by (auto simp: sampleProject_def)
  with sampleHolidays_ok counted st run_cycle_free passes_cycle_free unset show ?thesis
    by (intro conjI)
qed

text \<open>
  C4, as stated, fails: a task of \<open>2 * 10^15\<close> weeks has \<open>10^16\<close> working days to walk, the
  decrement of line 141 leaves that counter where it is, and the loop of lines 138-142 never
  ends, so the scheduler does not return.
\<close>

theorem calculateSchedule_terminates_counterexample:
  "\<lfloor>durationWeeks (sampleTask ''A'' 2000000000000000 [] None) * 5\<rfloor> = 10000000000000000 \<and>
   decrement 10000000000000000 = 10000000000000000 \<and>
   calculateSchedule sampleHolidays
     (sampleProject [sampleTask ''A'' 2000000000000000 [] None]) = None"
  using run_stuck by (simp add: sampleTask_def decrement_def)

section \<open>Properties of the workstream injector\<close>

lemma findIndex_None: "findIndex P xs = None \<longleftrightarrow> (\<forall>x\<in>set xs. \<not> P x)"
  by (induction xs) (auto split: option.splits)

lemma findIndex_Some:
  "findIndex P xs = Some i \<longleftrightarrow> i < length xs \<and> P (xs ! i) \<and> (\<forall>j<i. \<not> P (xs ! j))"
proof (induction xs arbitrary: i)
  case Nil
  then show ?case by simp
next
  case (Cons x xs)
  show ?case
  proof (cases "P x")
    case True
    then show ?thesis by (cases i) auto
  next
    case False
    show ?thesis
    proof (cases i)
      case 0
      with False show ?thesis by (auto split: option.splits)
    next
      case (Suc k)
      have "(\<forall>j<Suc k. \<not> P ((x # xs) ! j)) \<longleftrightarrow> (\<forall>j<k. \<not> P (xs ! j))"
        using False by (auto simp: less_Suc_eq_0_disj)
      with Suc False Cons.IH[of k] show ?thesis by (auto split: option.splits)
    qed
  qed
qed

lemma shortenPhase3_ids: "map task_id (shortenPhase3 ts) = map task_id ts"
  by (auto simp: shortenPhase3_def Let_def map_update findIndex_Some list_update_same_conv[THEN iffD2]
      split: option.splits)

lemma shortenPhase3_preds: "map predecessors (shortenPhase3 ts) = map predecessors ts"
  by (auto simp: shortenPhase3_def Let_def map_update findIndex_Some list_update_same_conv[THEN iffD2]
      split: option.splits)

lemma vddTasks_ids: "map task_id vddTasks = [''VDD.1'', ''VDD.2'', ''VDD.3'', ''VDD.4'']"
  by (simp add: vddTasks_def vddTask_def)

lemma vddTasks_preds:
  "map predecessors vddTasks = [[''T1.1''], [''VDD.1''], [''VDD.1''], [''VDD.2'', ''VDD.3'']]"
  by (simp add: vddTasks_def vddTask_def)

text \<open>
  C9. \<open>injectVddTasks\<close> returns the project unchanged when \<open>vddEnabled\<close> is false or a task
  with id VDD.1 exists, and calling it twice gives the same project as calling it once.
\<close>

theorem injectVddTasks_idempotent:
  "injectVddTasks (injectVddTasks p) = injectVddTasks p \<and>
   (\<not> vddEnabled p \<or> (\<exists>t\<in>set (tasks p). task_id t = ''VDD.1'') \<longrightarrow> injectVddTasks p = p)"
proof
  show noop: "\<not> vddEnabled p \<or> (\<exists>t\<in>set (tasks p). task_id t = ''VDD.1'') \<longrightarrow> injectVddTasks p = p" for p
    by (auto simp: injectVddTasks_def list_ex_iff)
  show "injectVddTasks (injectVddTasks p) = injectVddTasks p"
  proof (cases "\<not> vddEnabled p \<or> (\<exists>t\<in>set (tasks p). task_id t = ''VDD.1'')")
    case True
    with noop[of p] show ?thesis by simp
  next
    case False
    define k where "k = (case findIndex isKickoff (tasks p) of None \<Rightarrow> 0 | Some i \<Rightarrow> i + 1)"
    from False have r: "injectVddTasks p =
        p\<lparr>tasks := shortenPhase3 (take k (tasks p) @ vddTasks @ drop k (tasks p))\<rparr>"
      by (simp add: injectVddTasks_def Let_def k_def list_ex_iff)
    have "''VDD.1'' \<in> set (map task_id (tasks (injectVddTasks p)))"
      unfolding r by (simp add: shortenPhase3_ids vddTasks_ids)
    then have "\<exists>t\<in>set (tasks (injectVddTasks p)). task_id t = ''VDD.1''" by auto
    with noop[of "injectVddTasks p"] show ?thesis by blast
  qed
qed


theorem injectVddTasks_idempotent_witness:
  "(\<exists>t\<in>set (tasks ((sampleProject [sampleTask ''VDD.1'' 2 [''T1.1''] None])\<lparr>vddEnabled := True\<rparr>)).
      task_id t = ''VDD.1'') \<and>
   injectVddTasks ((sampleProject [sampleTask ''VDD.1'' 2 [''T1.1''] None])\<lparr>vddEnabled := True\<rparr>) =
     (sampleProject [sampleTask ''VDD.1'' 2 [''T1.1''] None])\<lparr>vddEnabled := True\<rparr>"
  using injectVddTasks_idempotent[of
      "(sampleProject [sampleTask ''VDD.1'' 2 [''T1.1''] None])\<lparr>vddEnabled := True\<rparr>"]
  by (simp add: sampleProject_def sampleTask_def)

text \<open>
  C3, as the code has it. When \<open>injectVddTasks\<close> injects, the four tasks VDD.1 to VDD.4 are
  inserted immediately after the first task, in list order, whose id is T1.1, F1.1 or D1.1, or
  at position 0 when there is none; the tasks the project had keep their order and their
  predecessors; and when that first kickoff task is T1.1, the entry task VDD.1 has it as its
  only predecessor.
\<close>

theorem injectVddTasks_position:
  assumes "vddEnabled p" and "\<not> (\<exists>t\<in>set (tasks p). task_id t = ''VDD.1'')"
  shows "((\<forall>t\<in>set (tasks p). \<not> isKickoff t) \<longrightarrow>
            map task_id (tasks (injectVddTasks p)) =
              [''VDD.1'', ''VDD.2'', ''VDD.3'', ''VDD.4''] @ map task_id (tasks p) \<and>
            map predecessors (drop 4 (tasks (injectVddTasks p))) = map predecessors (tasks p)) \<and>
         (i < length (tasks p) \<and> isKickoff (tasks p ! i) \<and> (\<forall>j<i. \<not> isKickoff (tasks p ! j)) \<longrightarrow>
            map task_id (tasks (injectVddTasks p)) =
              map task_id (take (Suc i) (tasks p)) @ [''VDD.1'', ''VDD.2'', ''VDD.3'', ''VDD.4'']
                @ map task_id (drop (Suc i) (tasks p)) \<and>
            map predecessors (take (Suc i) (tasks (injectVddTasks p))) =
              map predecessors (take (Suc i) (tasks p)) \<and>
            map predecessors (drop (Suc i + 4) (tasks (injectVddTasks p))) =
              map predecessors (drop (Suc i) (tasks p)) \<and>
            (task_id (tasks p ! i) = ''T1.1'' \<longrightarrow>
               predecessors (tasks (injectVddTasks p) ! Suc i) = [task_id (tasks p ! i)]))"
proof -
  define k where "k = (case findIndex isKickoff (tasks p) of None \<Rightarrow> 0 | Some i \<Rightarrow> i + 1)"
  define r where "r = tasks (injectVddTasks p)"
  from assms have r: "r = shortenPhase3 (take k (tasks p) @ vddTasks @ drop k (tasks p))"
    by (simp add: r_def injectVddTasks_def Let_def k_def list_ex_iff)
  have ids: "map task_id r = map task_id (take k (tasks p)) @
      [''VDD.1'', ''VDD.2'', ''VDD.3'', ''VDD.4''] @ map task_id (drop k (tasks p))"
    unfolding r by (simp add: shortenPhase3_ids vddTasks_ids)
  have preds: "map predecessors r = map predecessors (take k (tasks p)) @
      [[''T1.1''], [''VDD.1''], [''VDD.1''], [''VDD.2'', ''VDD.3'']] @ map predecessors (drop k (tasks p))"
    unfolding r by (simp add: shortenPhase3_preds vddTasks_preds)
  have none: "map task_id r = [''VDD.1'', ''VDD.2'', ''VDD.3'', ''VDD.4''] @ map task_id (tasks p) \<and>
      map predecessors (drop 4 r) = map predecessors (tasks p)"
    if "\<forall>t\<in>set (tasks p). \<not> isKickoff t"
  proof -
    from that have "k = 0" by (simp add: k_def findIndex_None[THEN iffD2])
    with ids preds show ?thesis by (simp add: drop_map[symmetric])
  qed
  have some: "map task_id r = map task_id (take (Suc i) (tasks p)) @
        [''VDD.1'', ''VDD.2'', ''VDD.3'', ''VDD.4''] @ map task_id (drop (Suc i) (tasks p)) \<and>
      map predecessors (take (Suc i) r) = map predecessors (take (Suc i) (tasks p)) \<and>
      map predecessors (drop (Suc i + 4) r) = map predecessors (drop (Suc i) (tasks p)) \<and>
      (task_id (tasks p ! i) = ''T1.1'' \<longrightarrow> predecessors (r ! Suc i) = [task_id (tasks p ! i)])"
    if h: "i < length (tasks p) \<and> isKickoff (tasks p ! i) \<and> (\<forall>j<i. \<not> isKickoff (tasks p ! j))"
  proof -
    from h have "findIndex isKickoff (tasks p) = Some i" by (simp add: findIndex_Some)
    then have k: "k = Suc i" by (simp add: k_def)
    from h have len: "length (map predecessors (take (Suc i) (tasks p))) = Suc i" by simp
    have lr: "Suc i < length r"
      using arg_cong[OF ids, of length] h k by simp arith
    have t: "map predecessors (take (Suc i) r) = map predecessors (take (Suc i) (tasks p))"
      using len by (simp add: take_map[symmetric] preds k del: take_Suc)
    have d: "map predecessors (drop (Suc i + 4) r) = map predecessors (drop (Suc i) (tasks p))"
      using len by (simp add: drop_map[symmetric] preds k del: drop_Suc)
    have "predecessors (r ! Suc i) = map predecessors r ! Suc i"
      using lr by simp
    also have "\<dots> = [''T1.1'']"
      unfolding preds k using len by (simp add: nth_append del: take_Suc)
    finally have "predecessors (r ! Suc i) = [''T1.1'']" .
    with ids t d k show ?thesis by simp
  qed
  from none some show ?thesis unfolding r_def by blast
qed

theorem injectVddTasks_position_witness:
  "vddEnabled ((sampleProject [sampleTask ''T0'' 1 [] None, sampleTask ''T1.1'' 2 [] None,
       sampleTask ''T1.2'' 4 [''T1.1''] None])\<lparr>vddEnabled := True\<rparr>) \<and>
   map task_id (tasks (injectVddTasks ((sampleProject [sampleTask ''T0'' 1 [] None,
       sampleTask ''T1.1'' 2 [] None, sampleTask ''T1.2'' 4 [''T1.1''] None])\<lparr>vddEnabled := True\<rparr>))) =
     [''T0'', ''T1.1'', ''VDD.1'', ''VDD.2'', ''VDD.3'', ''VDD.4'', ''T1.2''] \<and>
   predecessors (tasks (injectVddTasks ((sampleProject [sampleTask ''T0'' 1 [] None,
       sampleTask ''T1.1'' 2 [] None, sampleTask ''T1.2'' 4 [''T1.1''] None])\<lparr>vddEnabled := True\<rparr>)) ! Suc 1) =
     [''T1.1'']"
proof -
  let ?P = "(sampleProject [sampleTask ''T0'' 1 [] None, sampleTask ''T1.1'' 2 [] None,
       sampleTask ''T1.2'' 4 [''T1.1''] None])\<lparr>vddEnabled := True\<rparr>"
  have a: "vddEnabled ?P" by simp
  have b: "\<not> (\<exists>t\<in>set (tasks ?P). task_id t = ''VDD.1'')"
    by (simp add: sampleProject_def sampleTask_def)
  have c: "1 < length (tasks ?P) \<and> isKickoff (tasks ?P ! 1) \<and> (\<forall>j<1. \<not> isKickoff (tasks ?P ! j))"
    by (simp add: sampleProject_def sampleTask_def isKickoff_def)
  have d: "task_id (tasks ?P ! 1) = ''T1.1''"
    by (simp add: sampleProject_def sampleTask_def)
  from injectVddTasks_position[OF a b, of 1] c d
  have "map task_id (tasks (injectVddTasks ?P)) =
      map task_id (take (Suc 1) (tasks ?P)) @ [''VDD.1'', ''VDD.2'', ''VDD.3'', ''VDD.4'']
        @ map task_id (drop (Suc 1) (tasks ?P))"
    and "predecessors (tasks (injectVddTasks ?P) ! Suc 1) = [''T1.1'']" by simp_all
  then show ?thesis by (simp add: sampleProject_def sampleTask_def)
qed

text \<open>
  C3, as stated, fails for a list that holds F1.1 before T1.1: the four tasks are inserted
  immediately after F1.1, the first kickoff task in list order, not after T1.1, the first id
  of the three in the order the code names them; and the entry task VDD.1 depends on T1.1, which
  is not the task it was inserted after.
\<close>

theorem injectVddTasks_position_counterexample:
  "map task_id (tasks (injectVddTasks ((sampleProject [sampleTask ''F1.1'' 3 [] None,
       sampleTask ''T1.1'' 2 [] None])\<lparr>vddEnabled := True\<rparr>))) =
     [''F1.1'', ''VDD.1'', ''VDD.2'', ''VDD.3'', ''VDD.4'', ''T1.1''] \<and>
   predecessors (tasks (injectVddTasks ((sampleProject [sampleTask ''F1.1'' 3 [] None,
       sampleTask ''T1.1'' 2 [] None])\<lparr>vddEnabled := True\<rparr>)) ! 1) = [''T1.1''] \<and>
   [''T1.1''] \<noteq> [''F1.1'']"
  by (simp add: injectVddTasks_def sampleProject_def sampleTask_def isKickoff_def Let_def
      shortenPhase3_def vddTasks_def vddTask_def)

section \<open>Properties of the compression engine\<close>

lemma calculateSchedule_fields:
  assumes "calculateSchedule H q = Some q'"
  shows "projectName q' = projectName q" "startDate q' = startDate q" "country q' = country q"
    "vddEnabled q' = vddEnabled q" "length (tasks q') = length (tasks q)"
    "q' = q\<lparr>tasks := tasks q'\<rparr>"
proof -
  obtain k pr where q': "q' = q\<lparr>tasks := tasks q'\<rparr>"
    and inv: "sched_inv H (country q) (resetComputed (tasks q)) (tasks q', pr)"
    by (rule calculateSchedule_Some[OF assms]) blast
  show "q' = q\<lparr>tasks := tasks q'\<rparr>" by (rule q')
  from arg_cong[OF q', of projectName] show "projectName q' = projectName q" by simp
  from arg_cong[OF q', of startDate] show "startDate q' = startDate q" by simp
  from arg_cong[OF q', of country] show "country q' = country q" by simp
  from arg_cong[OF q', of vddEnabled] show "vddEnabled q' = vddEnabled q" by simp
  from sched_inv_len[OF inv] show "length (tasks q') = length (tasks q)"
    by (simp add: resetComputed_len)
qed

lemma calculateSchedule_nth:
  assumes "calculateSchedule H q = Some q'" and "i < length (tasks q)"
  shows "task_id (tasks q' ! i) = task_id (tasks q ! i)"
    and "phase (tasks q' ! i) = phase (tasks q ! i)"
    and "durationWeeks (tasks q' ! i) = durationWeeks (tasks q ! i)"
    and "originalDurationWeeks (tasks q' ! i) = originalDurationWeeks (tasks q ! i)"
    and "compressionRatio (tasks q' ! i) = compressionRatio (tasks q ! i)"
    and "clearComputed (tasks q' ! i) = clearComputed (tasks q ! i)"
proof -
  obtain k pr where
    inv: "sched_inv H (country q) (resetComputed (tasks q)) (tasks q', pr)"
    by (rule calculateSchedule_Some[OF assms(1)]) blast
  from sched_inv_len[OF inv] assms(2) have i: "i < length (tasks q')"
    by (simp add: resetComputed_len)
  note f = sched_inv_fields[OF inv i]
  from f(1) assms(2) show "task_id (tasks q' ! i) = task_id (tasks q ! i)"
    by (simp add: resetComputed_nth)
  from f(7) assms(2) show "phase (tasks q' ! i) = phase (tasks q ! i)"
    by (simp add: resetComputed_nth)
  from f(3) assms(2) show "durationWeeks (tasks q' ! i) = durationWeeks (tasks q ! i)"
    by (simp add: resetComputed_nth)
  from f(4) assms(2) show "originalDurationWeeks (tasks q' ! i) = originalDurationWeeks (tasks q ! i)"
    by (simp add: resetComputed_nth)
  from f(5) assms(2) show "compressionRatio (tasks q' ! i) = compressionRatio (tasks q ! i)"
    by (simp add: resetComputed_nth)
  from arg_cong[OF sched_inv_static[OF inv i], of clearComputed] assms(2)
  show "clearComputed (tasks q' ! i) = clearComputed (tasks q ! i)"
    by (simp add: resetComputed_nth clearComputed_def)
qed

lemma resetComputed_clear:
  assumes "map clearComputed ts = map clearComputed ts'"
  shows "resetComputed ts = resetComputed ts'"
proof (rule nth_equalityI)
  from assms have len: "length ts = length ts'" by (rule map_eq_imp_length_eq)
  then show "length (resetComputed ts) = length (resetComputed ts')"
    by (simp add: resetComputed_len)
  fix i assume "i < length (resetComputed ts)"
  then have i: "i < length ts" by (simp add: resetComputed_len)
  from assms i len have "clearComputed (ts ! i) = clearComputed (ts' ! i)"
    by (metis nth_map)
  from arg_cong[OF this, of "\<lambda>t. t\<lparr>serialNumber := Some (i + 1), computedStart := None,
      computedEnd := None\<rparr>"] i len
  show "resetComputed ts ! i = resetComputed ts' ! i"
    by (simp add: resetComputed_nth clearComputed_def)
qed

lemma calculateSchedule_cong:
  assumes "q\<lparr>tasks := []\<rparr> = q'\<lparr>tasks := []\<rparr>"
    and "map clearComputed (tasks q) = map clearComputed (tasks q')"
  shows "calculateSchedule H q = calculateSchedule H q'"
proof -
  have r: "resetComputed (tasks q) = resetComputed (tasks q')"
    by (rule resetComputed_clear[OF assms(2)])
  from arg_cong[OF assms(1), of startDate] have sd: "startDate q = startDate q'" by simp
  from arg_cong[OF assms(1), of country] have c: "country q = country q'" by simp
  have u: "q\<lparr>tasks := X\<rparr> = q'\<lparr>tasks := X\<rparr>" for X
    using arg_cong[OF assms(1), of "\<lambda>p. p\<lparr>tasks := X\<rparr>"] by simp
  show ?thesis by (simp add: calculateSchedule_def Let_def r sd c u split: option.splits)
qed

lemma resetDurations_len: "length (resetDurations ts) = length ts"
  by (simp add: resetDurations_def)

lemma resetDurations_nth:
  "i < length ts \<Longrightarrow> resetDurations ts ! i =
     (if originalDurationWeeks (ts ! i) > 0
      then (ts ! i)\<lparr>durationWeeks := originalDurationWeeks (ts ! i), compressionRatio := 1\<rparr>
      else ts ! i)"
  by (simp add: resetDurations_def)

lemma clear_resetDurations: "map clearComputed (resetDurations ts) = map baseTask ts"
  by (simp add: resetDurations_def baseTask_def)

lemma baseTask_reset: "map baseTask (resetDurations ts) = map baseTask ts"
  by (simp add: resetDurations_def baseTask_def clearComputed_def)

lemma consistent_reset:
  "\<forall>t\<in>set ts. baselineConsistent t \<Longrightarrow> \<forall>t\<in>set (resetDurations ts). baselineConsistent t"
  by (auto simp: resetDurations_def baselineConsistent_def)

lemma baseTask_scale: "baselineConsistent t \<Longrightarrow> baseTask (scaleTask r t) = baseTask t"
  by (auto simp: baseTask_def scaleTask_def baselineConsistent_def clearComputed_def)

lemma consistent_scale: "baselineConsistent t \<Longrightarrow> baselineConsistent (scaleTask r t)"
  by (auto simp: scaleTask_def baselineConsistent_def)

lemma baseTask_clear: "clearComputed t = clearComputed t' \<Longrightarrow> baseTask t = baseTask t'"
  by (cases t; cases t') (simp add: baseTask_def clearComputed_def)

lemma consistent_clear:
  "clearComputed t = clearComputed t' \<Longrightarrow> baselineConsistent t = baselineConsistent t'"
  by (cases t; cases t') (simp add: baselineConsistent_def clearComputed_def)

lemma scaleBlock_len: "length (scaleBlock is r ts) = length ts"
  by (induction "is" arbitrary: ts) simp_all

lemma scaleBlock_other: "i \<notin> set is \<Longrightarrow> scaleBlock is r ts ! i = ts ! i"
  by (induction "is" arbitrary: ts) auto

lemma scaleBlock_base:
  "\<forall>t\<in>set ts. baselineConsistent t \<Longrightarrow>
     map baseTask (scaleBlock is r ts) = map baseTask ts \<and>
     (\<forall>t\<in>set (scaleBlock is r ts). baselineConsistent t)"
proof (induction "is" arbitrary: ts)
  case Nil
  then show ?case by simp
next
  case (Cons i "is")
  let ?ts = "ts[i := scaleTask r (ts ! i)]"
  have c: "\<forall>t\<in>set ?ts. baselineConsistent t" and b: "map baseTask ?ts = map baseTask ts"
  proof -
    show "\<forall>t\<in>set ?ts. baselineConsistent t"
    proof (cases "i < length ts")
      case True
      with Cons.prems have "baselineConsistent (scaleTask r (ts ! i))"
        by (simp add: consistent_scale)
      with Cons.prems show ?thesis using set_update_subset_insert[of ts i] by auto
    next
      case False
      with Cons.prems show ?thesis by (simp add: list_update_beyond)
    qed
    show "map baseTask ?ts = map baseTask ts"
    proof (cases "i < length ts")
      case True
      with Cons.prems have "baseTask (scaleTask r (ts ! i)) = baseTask (ts ! i)"
        by (simp add: baseTask_scale)
      with True show ?thesis by (simp add: map_update list_update_same_conv[THEN iffD2])
    next
      case False
      then show ?thesis by (simp add: list_update_beyond)
    qed
  qed
  from Cons.IH[OF c] b show ?case by simp
qed

lemma scaleBlock_clear_fields:
  "map phase (scaleBlock is r ts) = map phase ts \<and>
   map originalDurationWeeks (scaleBlock is r ts) = map originalDurationWeeks ts"
proof (induction "is" arbitrary: ts)
  case Nil
  then show ?case by simp
next
  case (Cons i "is")
  have "map phase (ts[i := scaleTask r (ts ! i)]) = map phase ts"
    by (cases "i < length ts")
       (simp_all add: map_update list_update_same_conv[THEN iffD2] scaleTask_def list_update_beyond)
  moreover have "map originalDurationWeeks (ts[i := scaleTask r (ts ! i)]) =
      map originalDurationWeeks ts"
    by (cases "i < length ts")
       (simp_all add: map_update list_update_same_conv[THEN iffD2] scaleTask_def list_update_beyond)
  ultimately show ?case using Cons.IH[of "ts[i := scaleTask r (ts ! i)]"] by simp
qed

lemma calculateSchedule_base:
  assumes "calculateSchedule H q = Some q'"
  shows "map clearComputed (tasks q') = map clearComputed (tasks q)"
    and "map baseTask (tasks q') = map baseTask (tasks q)"
    and "(\<forall>t\<in>set (tasks q). baselineConsistent t) \<Longrightarrow> (\<forall>t\<in>set (tasks q'). baselineConsistent t)"
proof -
  note len = calculateSchedule_fields(5)[OF assms]
  show c: "map clearComputed (tasks q') = map clearComputed (tasks q)"
    using len calculateSchedule_nth(6)[OF assms] by (auto simp: list_eq_iff_nth_eq)
  show "map baseTask (tasks q') = map baseTask (tasks q)"
    using len calculateSchedule_nth(6)[OF assms, THEN baseTask_clear]
    by (auto simp: list_eq_iff_nth_eq)
  assume a: "\<forall>t\<in>set (tasks q). baselineConsistent t"
  show "\<forall>t\<in>set (tasks q'). baselineConsistent t"
  proof
    fix t assume "t \<in> set (tasks q')"
    then obtain i where i: "i < length (tasks q)" "t = tasks q' ! i"
      using len by (auto simp: in_set_conv_nth)
    from consistent_clear[OF calculateSchedule_nth(6)[OF assms i(1)]] a i
    show "baselineConsistent t" by simp
  qed
qed

lemma compressBlock1_result:
  assumes "compressBlock1 H q b md = Some res"
  shows "\<exists>tp. calculateSchedule H q = Some tp \<and>
     (res = Inr tp \<or> (\<exists>ratio. res = Inr (tp\<lparr>tasks := scaleBlock b ratio (tasks tp)\<rparr>)))"
  using assms
  by (auto simp: compressBlock1_def divide_days_def Let_def split: option.splits if_splits)

lemma compressBlock2_result:
  assumes "compressBlock2 H q b sd = Some res"
  shows "\<exists>tp. calculateSchedule H q = Some tp \<and>
     (res = Inr tp \<or> (\<exists>ratio. res = Inr (tp\<lparr>tasks := scaleBlock b ratio (tasks tp)\<rparr>)))"
  using assms
  by (auto simp: compressBlock2_def divide_days_def Let_def
      split: option.splits if_splits prod.splits)

lemma compressBlock1_total:
  assumes "calendar_ok H (country q)" and "\<forall>t\<in>set (tasks q). walkCounted t"
  shows "\<exists>q'. compressBlock1 H q b md = Some (Inr q')"
proof -
  from calculateSchedule_total[OF assms] obtain tp where "calculateSchedule H q = Some tp" by blast
  then show ?thesis by (simp add: compressBlock1_def divide_days_def Let_def)
qed

lemma compressBlock2_total:
  assumes "calendar_ok H (country q)" and "\<forall>t\<in>set (tasks q). walkCounted t"
  shows "\<exists>q'. compressBlock2 H q b sd = Some (Inr q')"
proof -
  from calculateSchedule_total[OF assms] obtain tp where "calculateSchedule H q = Some tp" by blast
  then show ?thesis
    by (simp add: compressBlock2_def divide_days_def Let_def split: prod.splits option.splits)
qed

text \<open>What a block step that returns a project has kept.\<close>

lemma block_step_kept:
  assumes tp: "calculateSchedule H q = Some tp"
    and res: "q' = tp \<or> (\<exists>ratio. q' = tp\<lparr>tasks := scaleBlock b ratio (tasks tp)\<rparr>)"
  shows "q'\<lparr>tasks := []\<rparr> = q\<lparr>tasks := []\<rparr>"
    and "length (tasks q') = length (tasks q)"
    and "map phase (tasks q') = map phase (tasks q)"
    and "map originalDurationWeeks (tasks q') = map originalDurationWeeks (tasks q)"
    and "\<And>i. i < length (tasks q) \<Longrightarrow> i \<notin> set b \<Longrightarrow>
           durationWeeks (tasks q' ! i) = durationWeeks (tasks q ! i) \<and>
           compressionRatio (tasks q' ! i) = compressionRatio (tasks q ! i)"
    and "(\<forall>t\<in>set (tasks q). baselineConsistent t) \<Longrightarrow>
           map baseTask (tasks q') = map baseTask (tasks q) \<and>
           (\<forall>t\<in>set (tasks q'). baselineConsistent t)"
proof -
  note f = calculateSchedule_fields[OF tp]
  have tpq: "tp\<lparr>tasks := []\<rparr> = q\<lparr>tasks := []\<rparr>"
    using arg_cong[OF f(6), of "\<lambda>p. p\<lparr>tasks := []\<rparr>"] by simp
  from res tpq show "q'\<lparr>tasks := []\<rparr> = q\<lparr>tasks := []\<rparr>" by auto
  from res f(5) show "length (tasks q') = length (tasks q)" by (auto simp: scaleBlock_len)
  have ph: "map phase (tasks tp) = map phase (tasks q)"
    using f(5) calculateSchedule_nth(2)[OF tp] by (auto simp: list_eq_iff_nth_eq)
  have ow: "map originalDurationWeeks (tasks tp) = map originalDurationWeeks (tasks q)"
    using f(5) calculateSchedule_nth(4)[OF tp] by (auto simp: list_eq_iff_nth_eq)
  from res ph show "map phase (tasks q') = map phase (tasks q)"
    by (auto simp: scaleBlock_clear_fields)
  from res ow show "map originalDurationWeeks (tasks q') = map originalDurationWeeks (tasks q)"
    by (auto simp: scaleBlock_clear_fields)
  show "durationWeeks (tasks q' ! i) = durationWeeks (tasks q ! i) \<and>
      compressionRatio (tasks q' ! i) = compressionRatio (tasks q ! i)"
    if "i < length (tasks q)" "i \<notin> set b" for i
    using res calculateSchedule_nth(3,5)[OF tp that(1)] that(2)
    by (auto simp: scaleBlock_other)
  assume c: "\<forall>t\<in>set (tasks q). baselineConsistent t"
  note b = calculateSchedule_base(2)[OF tp] calculateSchedule_base(3)[OF tp c]
  from res b scaleBlock_base[OF b(2), of b]
  show "map baseTask (tasks q') = map baseTask (tasks q) \<and>
      (\<forall>t\<in>set (tasks q'). baselineConsistent t)" by auto
qed

lemma block1Tasks_iff: "i \<in> set (block1Tasks ts) \<longleftrightarrow> i < length ts \<and> inBlock1 (ts ! i)"
  by (auto simp: block1Tasks_def)

lemma block2Tasks_iff: "i \<in> set (block2Tasks ts) \<longleftrightarrow> i < length ts \<and> \<not> inBlock1 (ts ! i)"
  by (auto simp: block2Tasks_def block1Tasks_def)

lemma blocks_phase:
  assumes "map phase ts = map phase ts'"
  shows "block1Tasks ts = block1Tasks ts'" and "block2Tasks ts = block2Tasks ts'"
proof -
  from assms have len: "length ts = length ts'" by (rule map_eq_imp_length_eq)
  have "inBlock1 (ts ! i) = inBlock1 (ts' ! i)" if "i < length ts" for i
    using nth_map[of i ts phase] nth_map[of i ts' phase] that len assms
    by (simp add: inBlock1_def)
  then show b1: "block1Tasks ts = block1Tasks ts'"
    unfolding block1Tasks_def using len by (auto intro: filter_cong)
  show "block2Tasks ts = block2Tasks ts'"
    unfolding block2Tasks_def b1 using len by simp
qed

lemma compressBlock1_cong:
  "startDate q = startDate q' \<Longrightarrow> country q = country q' \<Longrightarrow>
     calculateSchedule H q = calculateSchedule H q' \<Longrightarrow>
     compressBlock1 H q b md = compressBlock1 H q' b md"
  by (simp add: compressBlock1_def Let_def split: option.splits)

lemma compressBlock2_cong:
  "country q = country q' \<Longrightarrow> calculateSchedule H q = calculateSchedule H q' \<Longrightarrow>
     compressBlock2 H q b sd = compressBlock2 H q' b sd"
  by (simp add: compressBlock2_def Let_def split: option.splits prod.splits)

lemma compressSchedule_staged:
  "compressSchedule H p m s =
     (let p0 = p\<lparr>tasks := resetDurations (tasks p)\<rparr> in
      if m = None \<and> s = None then map_option Inr (calculateSchedule H p0)
      else (case stage1 H p0 m of
              None \<Rightarrow> None
            | Some (Inl e) \<Rightarrow> Some (Inl e)
            | Some (Inr p1) \<Rightarrow>
                (case stage2 H p0 p1 s of
                   None \<Rightarrow> None
                 | Some (Inl e) \<Rightarrow> Some (Inl e)
                 | Some (Inr p2) \<Rightarrow> map_option Inr (calculateSchedule H p2))))"
  unfolding compressSchedule_def stage1_def stage2_def Let_def by (rule refl)

lemma stage1_result:
  assumes "stage1 H p0 m = Some res"
  shows "res = Inr p0 \<or> (\<exists>tp. calculateSchedule H p0 = Some tp \<and>
     (res = Inr tp \<or> (\<exists>ratio. res = Inr (tp\<lparr>tasks := scaleBlock (block1Tasks (tasks p0)) ratio (tasks tp)\<rparr>))))"
  using assms compressBlock1_result[of H p0 "block1Tasks (tasks p0)" _ res]
  by (auto simp: stage1_def split: option.splits)

lemma stage2_result:
  assumes "stage2 H p0 p1 s = Some res"
  shows "res = Inr p1 \<or> (\<exists>tp. calculateSchedule H p1 = Some tp \<and>
     (res = Inr tp \<or> (\<exists>ratio. res = Inr (tp\<lparr>tasks := scaleBlock (block2Tasks (tasks p0)) ratio (tasks tp)\<rparr>))))"
  using assms compressBlock2_result[of H p1 "block2Tasks (tasks p0)" _ res]
  by (auto simp: stage2_def split: option.splits)

text \<open>What a stage that returns a project has kept.\<close>

lemma stage_kept:
  assumes "res = Inr q \<or> (\<exists>tp. calculateSchedule H q = Some tp \<and>
     (res = Inr tp \<or> (\<exists>ratio. res = Inr (tp\<lparr>tasks := scaleBlock b ratio (tasks tp)\<rparr>))))"
    and "res = Inr q'"
  shows "q'\<lparr>tasks := []\<rparr> = q\<lparr>tasks := []\<rparr>"
    and "length (tasks q') = length (tasks q)"
    and "map phase (tasks q') = map phase (tasks q)"
    and "map originalDurationWeeks (tasks q') = map originalDurationWeeks (tasks q)"
    and "\<And>i. i < length (tasks q) \<Longrightarrow> i \<notin> set b \<Longrightarrow>
           durationWeeks (tasks q' ! i) = durationWeeks (tasks q ! i) \<and>
           compressionRatio (tasks q' ! i) = compressionRatio (tasks q ! i)"
    and "(\<forall>t\<in>set (tasks q). baselineConsistent t) \<Longrightarrow>
           map baseTask (tasks q') = map baseTask (tasks q) \<and>
           (\<forall>t\<in>set (tasks q'). baselineConsistent t)"
proof -
  from assms consider (same) "q' = q"
    | (step) tp where "calculateSchedule H q = Some tp"
        "q' = tp \<or> (\<exists>ratio. q' = tp\<lparr>tasks := scaleBlock b ratio (tasks tp)\<rparr>)"
    by auto
  note c = this
  from c show "q'\<lparr>tasks := []\<rparr> = q\<lparr>tasks := []\<rparr>"
    by cases (simp, rule block_step_kept(1))
  from c show "length (tasks q') = length (tasks q)"
    by cases (simp, rule block_step_kept(2))
  from c show "map phase (tasks q') = map phase (tasks q)"
    by cases (simp, rule block_step_kept(3))
  from c show "map originalDurationWeeks (tasks q') = map originalDurationWeeks (tasks q)"
    by cases (simp, rule block_step_kept(4))
  from c show "durationWeeks (tasks q' ! i) = durationWeeks (tasks q ! i) \<and>
      compressionRatio (tasks q' ! i) = compressionRatio (tasks q ! i)"
    if "i < length (tasks q)" "i \<notin> set b" for i
    using that by cases (simp, rule block_step_kept(5))
  from c show "map baseTask (tasks q') = map baseTask (tasks q) \<and>
      (\<forall>t\<in>set (tasks q'). baselineConsistent t)"
    if "\<forall>t\<in>set (tasks q). baselineConsistent t"
    using that by cases (simp, rule block_step_kept(6))
qed

lemma rest_fields:
  "q\<lparr>tasks := []\<rparr> = q'\<lparr>tasks := []\<rparr> \<Longrightarrow>
     country q = country q' \<and> startDate q = startDate q' \<and> projectName q = projectName q' \<and>
     vddEnabled q = vddEnabled q'"
  by (cases q; cases q') simp

lemma compressSchedule_cases:
  assumes "compressSchedule H p m s = Some res"
  obtains (plain) r where "m = None" "s = None" "res = Inr r"
      "calculateSchedule H (p\<lparr>tasks := resetDurations (tasks p)\<rparr>) = Some r"
  | (staged) p1 p2 r where "m \<noteq> None \<or> s \<noteq> None" "res = Inr r"
      "stage1 H (p\<lparr>tasks := resetDurations (tasks p)\<rparr>) m = Some (Inr p1)"
      "stage2 H (p\<lparr>tasks := resetDurations (tasks p)\<rparr>) p1 s = Some (Inr p2)"
      "calculateSchedule H p2 = Some r"
proof -
  let ?p0 = "p\<lparr>tasks := resetDurations (tasks p)\<rparr>"
  show thesis
  proof (cases "m = None \<and> s = None")
    case True
    with assms that(1) show ?thesis by (auto simp: compressSchedule_staged Let_def)
  next
    case False
    with assms obtain r1 where r1: "stage1 H ?p0 m = Some r1"
      by (auto simp: compressSchedule_staged Let_def split: option.splits)
    from stage1_result[OF r1] obtain p1 where p1: "r1 = Inr p1" by auto
    with assms False r1 obtain r2 where r2: "stage2 H ?p0 p1 s = Some r2"
      by (auto simp: compressSchedule_staged Let_def split: option.splits)
    from stage2_result[OF r2] obtain p2 where p2: "r2 = Inr p2" by auto
    with assms False r1 r2 p1 obtain r where "calculateSchedule H p2 = Some r" "res = Inr r"
      by (auto simp: compressSchedule_staged Let_def split: option.splits)
    with that(2)[of r p1 p2] False r1 r2 p1 p2 show ?thesis by simp
  qed
qed

lemma compressSchedule_no_division: "compressSchedule H p m s \<noteq> Some (Inl e)"
proof
  assume "compressSchedule H p m s = Some (Inl e)"
  then show False by (cases rule: compressSchedule_cases) simp_all
qed

lemma compressSchedule_total_plain:
  assumes ok: "calendar_ok H (country p)"
    and c0: "\<forall>t\<in>set (resetDurations (tasks p)). walkCounted t"
  shows "\<exists>r. compressSchedule H p None None = Some (Inr r)"
proof -
  let ?p0 = "p\<lparr>tasks := resetDurations (tasks p)\<rparr>"
  from ok c0 have "calendar_ok H (country ?p0)" "\<forall>t\<in>set (tasks ?p0). walkCounted t"
    by simp_all
  from calculateSchedule_total[OF this] show ?thesis
    by (auto simp: compressSchedule_staged Let_def)
qed

lemma compressSchedule_total:
  assumes ok: "calendar_ok H (country p)"
    and c0: "\<forall>t\<in>set (resetDurations (tasks p)). walkCounted t"
    and c1: "\<And>p1. stage1 H (p\<lparr>tasks := resetDurations (tasks p)\<rparr>) m = Some (Inr p1) \<Longrightarrow>
      \<forall>t\<in>set (tasks p1). walkCounted t"
    and c2: "\<And>p1 p2. stage1 H (p\<lparr>tasks := resetDurations (tasks p)\<rparr>) m = Some (Inr p1) \<Longrightarrow>
      stage2 H (p\<lparr>tasks := resetDurations (tasks p)\<rparr>) p1 s = Some (Inr p2) \<Longrightarrow>
      \<forall>t\<in>set (tasks p2). walkCounted t"
  shows "\<exists>r. compressSchedule H p m s = Some (Inr r)"
proof -
  let ?p0 = "p\<lparr>tasks := resetDurations (tasks p)\<rparr>"
  have ok0: "calendar_ok H (country ?p0)" using ok by simp
  have cnt0: "\<forall>t\<in>set (tasks ?p0). walkCounted t" using c0 by simp
  show ?thesis
  proof (cases "m = None \<and> s = None")
    case True
    with compressSchedule_total_plain[OF ok c0] show ?thesis by simp
  next
    case False
    obtain p1 where p1: "stage1 H ?p0 m = Some (Inr p1)"
      using compressBlock1_total[OF ok0 cnt0] by (cases m) (auto simp: stage1_def)
    from rest_fields[OF stage_kept(1)[OF stage1_result[OF p1] refl]]
    have "country p1 = country ?p0" by simp
    with ok0 have ok1: "calendar_ok H (country p1)" by simp
    obtain p2 where p2: "stage2 H ?p0 p1 s = Some (Inr p2)"
      using compressBlock2_total[OF ok1 c1[OF p1]] by (cases s) (auto simp: stage2_def)
    from rest_fields[OF stage_kept(1)[OF stage2_result[OF p2] refl]]
    have "country p2 = country p1" by simp
    with ok1 have "calendar_ok H (country p2)" by simp
    from calculateSchedule_total[OF this c2[OF p1 p2]] obtain r
      where "calculateSchedule H p2 = Some r" by blast
    with False p1 p2 show ?thesis by (auto simp: compressSchedule_staged Let_def)
  qed
qed

lemma compressSchedule_kept:
  assumes run: "compressSchedule H p m s = Some (Inr r)"
  shows "r\<lparr>tasks := []\<rparr> = p\<lparr>tasks := []\<rparr>"
    and "length (tasks r) = length (tasks p)"
    and "(\<forall>t\<in>set (tasks p). baselineConsistent t) \<Longrightarrow> map baseTask (tasks r) = map baseTask (tasks p)"
proof -
  let ?p0 = "p\<lparr>tasks := resetDurations (tasks p)\<rparr>"
  have p0: "?p0\<lparr>tasks := []\<rparr> = p\<lparr>tasks := []\<rparr>" "length (tasks ?p0) = length (tasks p)"
    "map baseTask (tasks ?p0) = map baseTask (tasks p)"
    by (simp_all add: resetDurations_len baseTask_reset)
  have c0: "\<forall>t\<in>set (tasks ?p0). baselineConsistent t" if "\<forall>t\<in>set (tasks p). baselineConsistent t"
    using consistent_reset[OF that] by simp
  have fin: "r\<lparr>tasks := []\<rparr> = q\<lparr>tasks := []\<rparr>" if "calculateSchedule H q = Some r" for q
    using arg_cong[OF calculateSchedule_fields(6)[OF that], of "\<lambda>p. p\<lparr>tasks := []\<rparr>"] by simp
  from run show "r\<lparr>tasks := []\<rparr> = p\<lparr>tasks := []\<rparr>"
  proof (cases rule: compressSchedule_cases)
    case (plain r')
    with fin[of ?p0] p0(1) show ?thesis by simp
  next
    case (staged p1 p2 r')
    from stage_kept(1)[OF stage1_result[OF staged(3)] refl]
      stage_kept(1)[OF stage2_result[OF staged(4)] refl] fin[of p2] staged(2,5) p0(1)
    show ?thesis by simp
  qed
  from run show "length (tasks r) = length (tasks p)"
  proof (cases rule: compressSchedule_cases)
    case (plain r')
    with calculateSchedule_fields(5)[of H ?p0 r] p0(2) show ?thesis by simp
  next
    case (staged p1 p2 r')
    from stage_kept(2)[OF stage1_result[OF staged(3)] refl]
      stage_kept(2)[OF stage2_result[OF staged(4)] refl]
      calculateSchedule_fields(5)[of H p2 r] staged(2,5) p0(2)
    show ?thesis by simp
  qed
  assume c: "\<forall>t\<in>set (tasks p). baselineConsistent t"
  from run show "map baseTask (tasks r) = map baseTask (tasks p)"
  proof (cases rule: compressSchedule_cases)
    case (plain r')
    with calculateSchedule_base(2)[of H ?p0 r] p0(3) show ?thesis by simp
  next
    case (staged p1 p2 r')
    note k1 = stage_kept(6)[OF stage1_result[OF staged(3)] refl c0[OF c]]
    note k2 = stage_kept(6)[OF stage2_result[OF staged(4)] refl k1[THEN conjunct2]]
    from k1 k2 calculateSchedule_base(2)[of H p2 r] staged(2,5) p0(3)
    show ?thesis by simp
  qed
qed

lemma baseTask_phase: "map baseTask ts = map baseTask ts' \<Longrightarrow> map phase ts = map phase ts'"
proof -
  assume a: "map baseTask ts = map baseTask ts'"
  have "phase (baseTask t) = phase t" for t by (simp add: baseTask_def clearComputed_def)
  then have "map phase ts = map phase (map baseTask ts)" "map phase ts' = map phase (map baseTask ts')"
    by simp_all
  with a show ?thesis by simp
qed

lemma compressSchedule_cong:
  assumes rest: "p\<lparr>tasks := []\<rparr> = p'\<lparr>tasks := []\<rparr>"
    and base: "map baseTask (tasks p) = map baseTask (tasks p')"
  shows "compressSchedule H p m s = compressSchedule H p' m s"
proof -
  let ?p0 = "p\<lparr>tasks := resetDurations (tasks p)\<rparr>"
  let ?p0' = "p'\<lparr>tasks := resetDurations (tasks p')\<rparr>"
  from rest_fields[OF rest] have sd: "startDate ?p0 = startDate ?p0'"
    and c: "country ?p0 = country ?p0'" by simp_all
  have cs: "calculateSchedule H ?p0 = calculateSchedule H ?p0'"
    using rest base by (intro calculateSchedule_cong) (simp_all add: clear_resetDurations)
  from baseTask_phase[OF base] have "map phase (tasks ?p0) = map phase (tasks ?p0')"
    by (simp add: resetDurations_def comp_def if_distrib[of phase] cong: if_cong)
  note b = blocks_phase[OF this]
  have s1: "stage1 H ?p0 m = stage1 H ?p0' m" if "m \<noteq> None"
    using that compressBlock1_cong[OF sd c cs] b(1) by (auto simp: stage1_def)
  have s2: "stage2 H ?p0 p1 s = stage2 H ?p0' p1 s" for p1
    using b(2) by (simp add: stage2_def split: option.splits)
  show ?thesis
  proof (cases m)
    case (Some md)
    with s1 s2 show ?thesis
      by (simp add: compressSchedule_staged Let_def split: option.splits sum.splits)
  next
    case None
    show ?thesis
    proof (cases s)
      case None
      with \<open>m = None\<close> cs show ?thesis by (simp add: compressSchedule_staged Let_def)
    next
      case (Some sd)
      have "compressBlock2 H ?p0 (block2Tasks (tasks ?p0)) sd =
          compressBlock2 H ?p0' (block2Tasks (tasks ?p0')) sd"
        using compressBlock2_cong[OF c cs] b(2) by simp
      with Some \<open>m = None\<close> show ?thesis
        by (simp add: compressSchedule_staged Let_def stage1_def stage2_def)
    qed
  qed
qed

lemma sampleProject_sel [simp]:
  "startDate (sampleProject ts) = 19723" "country (sampleProject ts) = [''US'']"
  "tasks (sampleProject ts) = ts" "sampleProject ts\<lparr>tasks := ts'\<rparr> = sampleProject ts'"
  by (simp_all add: sampleProject_def)

lemmas sched_eval2 = calculateSchedule_def resetComputed_def schedulePass_def visitTask_def
  placeTask_def tasksById_def roundToBusinessDay.simps addBusinessDays.simps decrement_def
  isWeekend_def getDay_def upt_rec sampleHolidays_def taskWith_def taskAt_def scheduleLoop.simps
  sampleProject_def

lemmas gbd_eval = getBusinessDays_def getBusinessDaysLoop.simps sampleHolidays_def isWeekend_def
  getDay_def

lemma gbd_10: "getBusinessDays sampleHolidays 19723 19738 [''US''] = 10"
  by (simp add: gbd_eval)

lemma gbd_20: "getBusinessDays sampleHolidays 19723 19752 [''US''] = 20"
  by (simp add: gbd_eval)

text \<open>A project with consistent baselines, compressed to a marketing date.\<close>

lemma good_reset:
  "resetDurations [taskWith ''A'' ''Phase 1'' 2 2 1 [], taskWith ''B'' ''Phase 1'' 2 2 1 [''A'']] =
     [taskWith ''A'' ''Phase 1'' 2 2 1 [], taskWith ''B'' ''Phase 1'' 2 2 1 [''A'']]"
  by (simp add: resetDurations_def taskWith_def)

lemma good_block1:
  "block1Tasks [taskWith ''A'' ''Phase 1'' 2 2 1 [], taskWith ''B'' ''Phase 1'' 2 2 1 [''A'']] = [0, Suc 0]"
  by (simp add: block1Tasks_def inBlock1_def taskWith_def upt_rec)

lemma good_baseline:
  "calculateSchedule sampleHolidays
     (sampleProject [taskWith ''A'' ''Phase 1'' 2 2 1 [], taskWith ''B'' ''Phase 1'' 2 2 1 [''A'']]) =
   Some (sampleProject [taskAt (taskWith ''A'' ''Phase 1'' 2 2 1 []) (Suc 0) 19724 19738,
      taskAt (taskWith ''B'' ''Phase 1'' 2 2 1 [''A'']) 2 19738 19752])"
  by (simp add: sched_eval2)

lemma good_maxEnd:
  "maxEndOfBlock1 [taskAt (taskWith ''A'' ''Phase 1'' 2 2 1 []) (Suc 0) 19724 19738,
      taskAt (taskWith ''B'' ''Phase 1'' 2 2 1 [''A'']) 2 19738 19752] [0, Suc 0] 19723 = 19752"
  by (simp add: taskWith_def taskAt_def)

lemma good_stage1:
  "compressBlock1 sampleHolidays
     (sampleProject [taskWith ''A'' ''Phase 1'' 2 2 1 [], taskWith ''B'' ''Phase 1'' 2 2 1 [''A'']])
     [0, Suc 0] 19738 =
   Some (Inr (sampleProject [taskAt (taskWith ''A'' ''Phase 1'' 1 2 (1 / 2) []) (Suc 0) 19724 19738,
      taskAt (taskWith ''B'' ''Phase 1'' 1 2 (1 / 2) [''A'']) 2 19738 19752]))"
  by (simp add: compressBlock1_def good_baseline good_maxEnd gbd_10 gbd_20 divide_days_def Let_def)
     (simp add: scaleTask_def taskWith_def taskAt_def gbd_10 gbd_20)

lemma good_final:
  "calculateSchedule sampleHolidays
     (sampleProject [taskAt (taskWith ''A'' ''Phase 1'' 1 2 (1 / 2) []) (Suc 0) 19724 19738,
      taskAt (taskWith ''B'' ''Phase 1'' 1 2 (1 / 2) [''A'']) 2 19738 19752]) =
   Some (sampleProject [taskAt (taskWith ''A'' ''Phase 1'' 1 2 (1 / 2) []) (Suc 0) 19724 19731,
      taskAt (taskWith ''B'' ''Phase 1'' 1 2 (1 / 2) [''A'']) 2 19731 19738])"
  by (simp add: sched_eval2)

lemma good_run:
  "compressSchedule sampleHolidays
     (sampleProject [taskWith ''A'' ''Phase 1'' 2 2 1 [], taskWith ''B'' ''Phase 1'' 2 2 1 [''A'']])
     (Some 19738) None =
   Some (Inr (sampleProject [taskAt (taskWith ''A'' ''Phase 1'' 1 2 (1 / 2) []) (Suc 0) 19724 19731,
      taskAt (taskWith ''B'' ''Phase 1'' 1 2 (1 / 2) [''A'']) 2 19731 19738]))"
  by (simp add: compressSchedule_def Let_def good_reset good_block1 good_stage1 good_final)

text \<open>
  C2, as the code has it. When no task combines a baseline that is not positive with a positive
  duration, a second call of \<open>compressSchedule\<close> with the same dates returns the very project
  the first call returned, so every \<open>durationWeeks\<close> and \<open>compressionRatio\<close> is the same.
  The call returns a project whenever business days do not run out and no task has more than
  \<open>2^53\<close> working days to walk, after the reset and after the scaling of either block.
\<close>

theorem compressSchedule_idempotent:
  "(calendar_ok H (country p) \<and>
    (\<forall>t\<in>set (resetDurations (tasks p)). walkCounted t) \<and>
    (\<forall>q1. stage1 H (p\<lparr>tasks := resetDurations (tasks p)\<rparr>) m = Some (Inr q1) \<longrightarrow>
       (\<forall>t\<in>set (tasks q1). walkCounted t) \<and>
       (\<forall>q2. stage2 H (p\<lparr>tasks := resetDurations (tasks p)\<rparr>) q1 s = Some (Inr q2) \<longrightarrow>
          (\<forall>t\<in>set (tasks q2). walkCounted t))) \<longrightarrow>
      (\<exists>p1. compressSchedule H p m s = Some (Inr p1))) \<and>
   (\<forall>p1. (\<forall>t\<in>set (tasks p). baselineConsistent t) \<and> compressSchedule H p m s = Some (Inr p1) \<longrightarrow>
      compressSchedule H p1 m s = Some (Inr p1))"
proof (intro conjI allI impI)
  assume a: "calendar_ok H (country p) \<and>
    (\<forall>t\<in>set (resetDurations (tasks p)). walkCounted t) \<and>
    (\<forall>q1. stage1 H (p\<lparr>tasks := resetDurations (tasks p)\<rparr>) m = Some (Inr q1) \<longrightarrow>
       (\<forall>t\<in>set (tasks q1). walkCounted t) \<and>
       (\<forall>q2. stage2 H (p\<lparr>tasks := resetDurations (tasks p)\<rparr>) q1 s = Some (Inr q2) \<longrightarrow>
          (\<forall>t\<in>set (tasks q2). walkCounted t)))"
  show "\<exists>p1. compressSchedule H p m s = Some (Inr p1)"
  proof (rule compressSchedule_total)
    from a show "calendar_ok H (country p)" "\<forall>t\<in>set (resetDurations (tasks p)). walkCounted t"
      by simp_all
    from a show "\<forall>t\<in>set (tasks q1). walkCounted t"
      if "stage1 H (p\<lparr>tasks := resetDurations (tasks p)\<rparr>) m = Some (Inr q1)" for q1
      using that by blast
    from a show "\<forall>t\<in>set (tasks q2). walkCounted t"
      if "stage1 H (p\<lparr>tasks := resetDurations (tasks p)\<rparr>) m = Some (Inr q1)"
        "stage2 H (p\<lparr>tasks := resetDurations (tasks p)\<rparr>) q1 s = Some (Inr q2)" for q1 q2
      using that by blast
  qed
next
  fix p1
  assume a: "(\<forall>t\<in>set (tasks p). baselineConsistent t) \<and> compressSchedule H p m s = Some (Inr p1)"
  then have run: "compressSchedule H p m s = Some (Inr p1)"
    and c: "\<forall>t\<in>set (tasks p). baselineConsistent t" by simp_all
  have "compressSchedule H p1 m s = compressSchedule H p m s"
    by (rule compressSchedule_cong[OF compressSchedule_kept(1)[OF run] compressSchedule_kept(3)[OF run c]])
  with run show "compressSchedule H p1 m s = Some (Inr p1)" by simp
qed

theorem compressSchedule_idempotent_witness:
  "calendar_ok sampleHolidays [''US''] \<and>
   walkCounted (taskWith ''A'' ''Phase 1'' 2 2 1 []) \<and>
   walkCounted (taskWith ''B'' ''Phase 1'' 2 2 1 [''A'']) \<and>
   stage1 sampleHolidays
     (sampleProject [taskWith ''A'' ''Phase 1'' 2 2 1 [], taskWith ''B'' ''Phase 1'' 2 2 1 [''A'']])
     (Some 19738) =
   Some (Inr (sampleProject [taskAt (taskWith ''A'' ''Phase 1'' 1 2 (1 / 2) []) (Suc 0) 19724 19738,
      taskAt (taskWith ''B'' ''Phase 1'' 1 2 (1 / 2) [''A'']) 2 19738 19752])) \<and>
   walkCounted (taskAt (taskWith ''A'' ''Phase 1'' 1 2 (1 / 2) []) (Suc 0) 19724 19738) \<and>
   walkCounted (taskAt (taskWith ''B'' ''Phase 1'' 1 2 (1 / 2) [''A'']) 2 19738 19752) \<and>
   baselineConsistent (taskWith ''A'' ''Phase 1'' 2 2 1 []) \<and>
   baselineConsistent (taskWith ''B'' ''Phase 1'' 2 2 1 [''A'']) \<and>
   compressSchedule sampleHolidays
     (sampleProject [taskWith ''A'' ''Phase 1'' 2 2 1 [], taskWith ''B'' ''Phase 1'' 2 2 1 [''A'']])
     (Some 19738) None =
   Some (Inr (sampleProject [taskAt (taskWith ''A'' ''Phase 1'' 1 2 (1 / 2) []) (Suc 0) 19724 19731,
      taskAt (taskWith ''B'' ''Phase 1'' 1 2 (1 / 2) [''A'']) 2 19731 19738])) \<and>
   compressSchedule sampleHolidays
     (sampleProject [taskAt (taskWith ''A'' ''Phase 1'' 1 2 (1 / 2) []) (Suc 0) 19724 19731,
      taskAt (taskWith ''B'' ''Phase 1'' 1 2 (1 / 2) [''A'']) 2 19731 19738])
     (Some 19738) None =
   Some (Inr (sampleProject [taskAt (taskWith ''A'' ''Phase 1'' 1 2 (1 / 2) []) (Suc 0) 19724 19731,
      taskAt (taskWith ''B'' ''Phase 1'' 1 2 (1 / 2) [''A'']) 2 19731 19738]))"
proof -
  let ?p = "sampleProject [taskWith ''A'' ''Phase 1'' 2 2 1 [], taskWith ''B'' ''Phase 1'' 2 2 1 [''A'']]"
  let ?p1 = "sampleProject [taskAt (taskWith ''A'' ''Phase 1'' 1 2 (1 / 2) []) (Suc 0) 19724 19738,
      taskAt (taskWith ''B'' ''Phase 1'' 1 2 (1 / 2) [''A'']) 2 19738 19752]"
  have c: "baselineConsistent (taskWith ''A'' ''Phase 1'' 2 2 1 [])"
    "baselineConsistent (taskWith ''B'' ''Phase 1'' 2 2 1 [''A''])"
    by (simp_all add: baselineConsistent_def taskWith_def)
  have w: "walkCounted (taskWith ''A'' ''Phase 1'' 2 2 1 [])"
    "walkCounted (taskWith ''B'' ''Phase 1'' 2 2 1 [''A''])"
    "walkCounted (taskAt (taskWith ''A'' ''Phase 1'' 1 2 (1 / 2) []) (Suc 0) 19724 19738)"
    "walkCounted (taskAt (taskWith ''B'' ''Phase 1'' 1 2 (1 / 2) [''A'']) 2 19738 19752)"
    by (simp_all add: walkCounted_def taskWith_def taskAt_def)
  have reset: "?p\<lparr>tasks := resetDurations (tasks ?p)\<rparr> = ?p"
    by (simp add: good_reset)
  have s1: "stage1 sampleHolidays ?p (Some 19738) = Some (Inr ?p1)"
    by (simp add: stage1_def good_block1 good_stage1)
  have s2: "stage2 sampleHolidays ?p q1 None = Some (Inr q1)" for q1
    by (simp add: stage2_def)
  have ok: "calendar_ok sampleHolidays (country ?p)" using sampleHolidays_ok by simp
  have counted: "\<forall>t\<in>set (resetDurations (tasks ?p)). walkCounted t"
    using w by (simp add: good_reset)
  have staged: "\<forall>q1. stage1 sampleHolidays (?p\<lparr>tasks := resetDurations (tasks ?p)\<rparr>) (Some 19738) =
      Some (Inr q1) \<longrightarrow> (\<forall>t\<in>set (tasks q1). walkCounted t) \<and>
       (\<forall>q2. stage2 sampleHolidays (?p\<lparr>tasks := resetDurations (tasks ?p)\<rparr>) q1 None =
          Some (Inr q2) \<longrightarrow> (\<forall>t\<in>set (tasks q2). walkCounted t))"
    unfolding reset using w by (auto simp: s1 s2)
  from compressSchedule_idempotent[of sampleHolidays ?p "Some 19738" None] ok counted staged
  obtain r where r: "compressSchedule sampleHolidays ?p (Some 19738) None = Some (Inr r)"
    by blast
  with good_run have "r = sampleProject
      [taskAt (taskWith ''A'' ''Phase 1'' 1 2 (1 / 2) []) (Suc 0) 19724 19731,
       taskAt (taskWith ''B'' ''Phase 1'' 1 2 (1 / 2) [''A'']) 2 19731 19738]" by simp
  with compressSchedule_idempotent[of sampleHolidays ?p "Some 19738" None] c r
  have "compressSchedule sampleHolidays (sampleProject
      [taskAt (taskWith ''A'' ''Phase 1'' 1 2 (1 / 2) []) (Suc 0) 19724 19731,
       taskAt (taskWith ''B'' ''Phase 1'' 1 2 (1 / 2) [''A'']) 2 19731 19738]) (Some 19738) None =
    Some (Inr (sampleProject
      [taskAt (taskWith ''A'' ''Phase 1'' 1 2 (1 / 2) []) (Suc 0) 19724 19731,
       taskAt (taskWith ''B'' ''Phase 1'' 1 2 (1 / 2) [''A'']) 2 19731 19738]))" by simp
  with sampleHolidays_ok w s1 c good_run show ?thesis by (intro conjI)
qed

text \<open>A project whose first task has baseline 0 and duration 2, compressed twice.\<close>

lemma odd_reset:
  "resetDurations [taskWith ''A'' ''Phase 1'' 2 0 1 [], taskWith ''B'' ''Phase 1'' 2 2 1 [''A'']] =
     [taskWith ''A'' ''Phase 1'' 2 0 1 [], taskWith ''B'' ''Phase 1'' 2 2 1 [''A'']]"
  by (simp add: resetDurations_def taskWith_def)

lemma odd_block1:
  "block1Tasks [taskWith ''A'' ''Phase 1'' 2 0 1 [], taskWith ''B'' ''Phase 1'' 2 2 1 [''A'']] = [0, Suc 0]"
  by (simp add: block1Tasks_def inBlock1_def taskWith_def upt_rec)

lemma odd_baseline:
  "calculateSchedule sampleHolidays
     (sampleProject [taskWith ''A'' ''Phase 1'' 2 0 1 [], taskWith ''B'' ''Phase 1'' 2 2 1 [''A'']]) =
   Some (sampleProject [taskAt (taskWith ''A'' ''Phase 1'' 2 0 1 []) (Suc 0) 19724 19738,
      taskAt (taskWith ''B'' ''Phase 1'' 2 2 1 [''A'']) 2 19738 19752])"
  by (simp add: sched_eval2)

lemma odd_maxEnd:
  "maxEndOfBlock1 [taskAt (taskWith ''A'' ''Phase 1'' 2 0 1 []) (Suc 0) 19724 19738,
      taskAt (taskWith ''B'' ''Phase 1'' 2 2 1 [''A'']) 2 19738 19752] [0, Suc 0] 19723 = 19752"
  by (simp add: taskWith_def taskAt_def)

lemma odd_stage1:
  "compressBlock1 sampleHolidays
     (sampleProject [taskWith ''A'' ''Phase 1'' 2 0 1 [], taskWith ''B'' ''Phase 1'' 2 2 1 [''A'']])
     [0, Suc 0] 19738 =
   Some (Inr (sampleProject [taskAt (taskWith ''A'' ''Phase 1'' 0 0 (1 / 2) []) (Suc 0) 19724 19738,
      taskAt (taskWith ''B'' ''Phase 1'' 1 2 (1 / 2) [''A'']) 2 19738 19752]))"
  by (simp add: compressBlock1_def odd_baseline odd_maxEnd gbd_10 gbd_20 divide_days_def Let_def)
     (simp add: scaleTask_def taskWith_def taskAt_def gbd_10 gbd_20)

lemma odd_final:
  "calculateSchedule sampleHolidays
     (sampleProject [taskAt (taskWith ''A'' ''Phase 1'' 0 0 (1 / 2) []) (Suc 0) 19724 19738,
      taskAt (taskWith ''B'' ''Phase 1'' 1 2 (1 / 2) [''A'']) 2 19738 19752]) =
   Some (sampleProject [taskAt (taskWith ''A'' ''Phase 1'' 0 0 (1 / 2) []) (Suc 0) 19724 19724,
      taskAt (taskWith ''B'' ''Phase 1'' 1 2 (1 / 2) [''A'']) 2 19724 19731])"
  by (simp add: sched_eval2)

lemma odd_run:
  "compressSchedule sampleHolidays
     (sampleProject [taskWith ''A'' ''Phase 1'' 2 0 1 [], taskWith ''B'' ''Phase 1'' 2 2 1 [''A'']])
     (Some 19738) None =
   Some (Inr (sampleProject [taskAt (taskWith ''A'' ''Phase 1'' 0 0 (1 / 2) []) (Suc 0) 19724 19724,
      taskAt (taskWith ''B'' ''Phase 1'' 1 2 (1 / 2) [''A'']) 2 19724 19731]))"
  by (simp add: compressSchedule_def Let_def odd_reset odd_block1 odd_stage1 odd_final)

lemma again_reset:
  "resetDurations [taskAt (taskWith ''A'' ''Phase 1'' 0 0 (1 / 2) []) (Suc 0) 19724 19724,
      taskAt (taskWith ''B'' ''Phase 1'' 1 2 (1 / 2) [''A'']) 2 19724 19731] =
     [taskAt (taskWith ''A'' ''Phase 1'' 0 0 (1 / 2) []) (Suc 0) 19724 19724,
      taskAt (taskWith ''B'' ''Phase 1'' 2 2 1 [''A'']) 2 19724 19731]"
  by (simp add: resetDurations_def taskWith_def taskAt_def)

lemma again_block1:
  "block1Tasks [taskAt (taskWith ''A'' ''Phase 1'' 0 0 (1 / 2) []) (Suc 0) 19724 19724,
      taskAt (taskWith ''B'' ''Phase 1'' 2 2 1 [''A'']) 2 19724 19731] = [0, Suc 0]"
  by (simp add: block1Tasks_def inBlock1_def taskWith_def taskAt_def upt_rec)

lemma again_baseline:
  "calculateSchedule sampleHolidays
     (sampleProject [taskAt (taskWith ''A'' ''Phase 1'' 0 0 (1 / 2) []) (Suc 0) 19724 19724,
      taskAt (taskWith ''B'' ''Phase 1'' 2 2 1 [''A'']) 2 19724 19731]) =
   Some (sampleProject [taskAt (taskWith ''A'' ''Phase 1'' 0 0 (1 / 2) []) (Suc 0) 19724 19724,
      taskAt (taskWith ''B'' ''Phase 1'' 2 2 1 [''A'']) 2 19724 19738])"
  by (simp add: sched_eval2)

lemma again_maxEnd:
  "maxEndOfBlock1 [taskAt (taskWith ''A'' ''Phase 1'' 0 0 (1 / 2) []) (Suc 0) 19724 19724,
      taskAt (taskWith ''B'' ''Phase 1'' 2 2 1 [''A'']) 2 19724 19738] [0, Suc 0] 19723 = 19738"
  by (simp add: taskWith_def taskAt_def)

lemma again_stage1:
  "compressBlock1 sampleHolidays
     (sampleProject [taskAt (taskWith ''A'' ''Phase 1'' 0 0 (1 / 2) []) (Suc 0) 19724 19724,
      taskAt (taskWith ''B'' ''Phase 1'' 2 2 1 [''A'']) 2 19724 19731])
     [0, Suc 0] 19738 =
   Some (Inr (sampleProject [taskAt (taskWith ''A'' ''Phase 1'' 0 0 (1 / 2) []) (Suc 0) 19724 19724,
      taskAt (taskWith ''B'' ''Phase 1'' 2 2 1 [''A'']) 2 19724 19738]))"
  by (simp add: compressBlock1_def again_baseline again_maxEnd gbd_10 divide_days_def Let_def)
     (simp add: scaleTask_def taskWith_def taskAt_def gbd_10)

lemma again_final:
  "calculateSchedule sampleHolidays
     (sampleProject [taskAt (taskWith ''A'' ''Phase 1'' 0 0 (1 / 2) []) (Suc 0) 19724 19724,
      taskAt (taskWith ''B'' ''Phase 1'' 2 2 1 [''A'']) 2 19724 19738]) =
   Some (sampleProject [taskAt (taskWith ''A'' ''Phase 1'' 0 0 (1 / 2) []) (Suc 0) 19724 19724,
      taskAt (taskWith ''B'' ''Phase 1'' 2 2 1 [''A'']) 2 19724 19738])"
  by (simp add: sched_eval2)

lemma again_run:
  "compressSchedule sampleHolidays
     (sampleProject [taskAt (taskWith ''A'' ''Phase 1'' 0 0 (1 / 2) []) (Suc 0) 19724 19724,
      taskAt (taskWith ''B'' ''Phase 1'' 1 2 (1 / 2) [''A'']) 2 19724 19731])
     (Some 19738) None =
   Some (Inr (sampleProject [taskAt (taskWith ''A'' ''Phase 1'' 0 0 (1 / 2) []) (Suc 0) 19724 19724,
      taskAt (taskWith ''B'' ''Phase 1'' 2 2 1 [''A'']) 2 19724 19738]))"
  by (simp add: compressSchedule_def Let_def again_reset again_block1 again_stage1 again_final)

text \<open>
  C2, as stated, fails. Task A has baseline 0 and duration 2, task B baseline and duration 2,
  and the marketing date is day 19738. The first call halves both blocks' durations and
  leaves B with duration 1 and ratio 1/2; A, whose baseline is 0, now has duration 0, so the
  second call measures a shorter baseline schedule and leaves B with duration 2 and ratio 1.
\<close>

theorem compressSchedule_idempotent_counterexample:
  "compressSchedule sampleHolidays
     (sampleProject [taskWith ''A'' ''Phase 1'' 2 0 1 [], taskWith ''B'' ''Phase 1'' 2 2 1 [''A'']])
     (Some 19738) None =
   Some (Inr (sampleProject [taskAt (taskWith ''A'' ''Phase 1'' 0 0 (1 / 2) []) (Suc 0) 19724 19724,
      taskAt (taskWith ''B'' ''Phase 1'' 1 2 (1 / 2) [''A'']) 2 19724 19731])) \<and>
   compressSchedule sampleHolidays
     (sampleProject [taskAt (taskWith ''A'' ''Phase 1'' 0 0 (1 / 2) []) (Suc 0) 19724 19724,
      taskAt (taskWith ''B'' ''Phase 1'' 1 2 (1 / 2) [''A'']) 2 19724 19731])
     (Some 19738) None =
   Some (Inr (sampleProject [taskAt (taskWith ''A'' ''Phase 1'' 0 0 (1 / 2) []) (Suc 0) 19724 19724,
      taskAt (taskWith ''B'' ''Phase 1'' 2 2 1 [''A'']) 2 19724 19738])) \<and>
   durationWeeks (taskAt (taskWith ''B'' ''Phase 1'' 1 2 (1 / 2) [''A'']) 2 19724 19731) \<noteq>
     durationWeeks (taskAt (taskWith ''B'' ''Phase 1'' 2 2 1 [''A'']) 2 19724 19738) \<and>
   compressionRatio (taskAt (taskWith ''B'' ''Phase 1'' 1 2 (1 / 2) [''A'']) 2 19724 19731) \<noteq>
     compressionRatio (taskAt (taskWith ''B'' ''Phase 1'' 2 2 1 [''A'']) 2 19724 19738)"
  using odd_run again_run by (simp add: taskWith_def taskAt_def)

text \<open>
  C5, as the code has it. With neither date, \<open>compressSchedule\<close> returns the schedule of the
  project after the reset: every task whose \<open>originalDurationWeeks\<close> is positive has
  \<open>durationWeeks\<close> equal to it and \<open>compressionRatio\<close> 1, and every other task keeps its
  \<open>durationWeeks\<close> and \<open>compressionRatio\<close>. The call returns whenever business days do not
  run out and, after the reset, no task has more than \<open>2^53\<close> working days to walk.
\<close>

theorem compressSchedule_reset:
  "(calendar_ok H (country p) \<and> (\<forall>t\<in>set (resetDurations (tasks p)). walkCounted t) \<longrightarrow>
      (\<exists>p'. compressSchedule H p None None = Some (Inr p'))) \<and>
   (\<forall>p'. compressSchedule H p None None = Some (Inr p') \<longrightarrow>
      calculateSchedule H (p\<lparr>tasks := resetDurations (tasks p)\<rparr>) = Some p' \<and>
      length (tasks p') = length (tasks p) \<and>
      (\<forall>i<length (tasks p).
         originalDurationWeeks (tasks p' ! i) = originalDurationWeeks (tasks p ! i) \<and>
         (0 < originalDurationWeeks (tasks p ! i) \<longrightarrow>
            durationWeeks (tasks p' ! i) = originalDurationWeeks (tasks p ! i) \<and>
            compressionRatio (tasks p' ! i) = 1) \<and>
         (originalDurationWeeks (tasks p ! i) \<le> 0 \<longrightarrow>
            durationWeeks (tasks p' ! i) = durationWeeks (tasks p ! i) \<and>
            compressionRatio (tasks p' ! i) = compressionRatio (tasks p ! i))))"
proof (intro conjI allI impI)
  assume "calendar_ok H (country p) \<and> (\<forall>t\<in>set (resetDurations (tasks p)). walkCounted t)"
  then show "\<exists>p'. compressSchedule H p None None = Some (Inr p')"
    by (intro compressSchedule_total_plain) simp_all
next
  fix p'
  assume "compressSchedule H p None None = Some (Inr p')"
  then show run: "calculateSchedule H (p\<lparr>tasks := resetDurations (tasks p)\<rparr>) = Some p'"
    by (auto simp: compressSchedule_staged Let_def)
  from calculateSchedule_fields(5)[OF run] show "length (tasks p') = length (tasks p)"
    by (simp add: resetDurations_len)
  fix i assume i: "i < length (tasks p)"
  then have i0: "i < length (tasks (p\<lparr>tasks := resetDurations (tasks p)\<rparr>))"
    by (simp add: resetDurations_len)
  note n = calculateSchedule_nth[OF run i0]
  from n(4) i show "originalDurationWeeks (tasks p' ! i) = originalDurationWeeks (tasks p ! i)"
    by (simp add: resetDurations_nth)
  from n(3) i show "durationWeeks (tasks p' ! i) = originalDurationWeeks (tasks p ! i)"
    if "0 < originalDurationWeeks (tasks p ! i)"
    using that by (simp add: resetDurations_nth)
  from n(5) i show "compressionRatio (tasks p' ! i) = 1"
    if "0 < originalDurationWeeks (tasks p ! i)"
    using that by (simp add: resetDurations_nth)
  from n(3) i show "durationWeeks (tasks p' ! i) = durationWeeks (tasks p ! i)"
    if "originalDurationWeeks (tasks p ! i) \<le> 0"
    using that by (simp add: resetDurations_nth)
  from n(5) i show "compressionRatio (tasks p' ! i) = compressionRatio (tasks p ! i)"
    if "originalDurationWeeks (tasks p ! i) \<le> 0"
    using that by (simp add: resetDurations_nth)
qed

lemma squeezed_reset:
  "resetDurations [taskWith ''A'' ''Phase 1'' 1 2 (1 / 2) []] = [taskWith ''A'' ''Phase 1'' 2 2 1 []]"
  by (simp add: resetDurations_def taskWith_def)

lemma squeezed_schedule:
  "calculateSchedule sampleHolidays (sampleProject [taskWith ''A'' ''Phase 1'' 2 2 1 []]) =
     Some (sampleProject [taskAt (taskWith ''A'' ''Phase 1'' 2 2 1 []) (Suc 0) 19724 19738])"
  by (simp add: sched_eval2)

theorem compressSchedule_reset_witness:
  "calendar_ok sampleHolidays [''US''] \<and>
   resetDurations [taskWith ''A'' ''Phase 1'' 1 2 (1 / 2) []] = [taskWith ''A'' ''Phase 1'' 2 2 1 []] \<and>
   walkCounted (taskWith ''A'' ''Phase 1'' 2 2 1 []) \<and>
   compressSchedule sampleHolidays (sampleProject [taskWith ''A'' ''Phase 1'' 1 2 (1 / 2) []]) None None =
     Some (Inr (sampleProject [taskAt (taskWith ''A'' ''Phase 1'' 2 2 1 []) (Suc 0) 19724 19738])) \<and>
   0 < originalDurationWeeks (taskWith ''A'' ''Phase 1'' 1 2 (1 / 2) []) \<and>
   durationWeeks (taskAt (taskWith ''A'' ''Phase 1'' 2 2 1 []) (Suc 0) 19724 19738) = 2 \<and>
   compressionRatio (taskAt (taskWith ''A'' ''Phase 1'' 2 2 1 []) (Suc 0) 19724 19738) = 1"
proof -
  have ok: "calendar_ok sampleHolidays (country (sampleProject [taskWith ''A'' ''Phase 1'' 1 2 (1 / 2) []]))"
    using sampleHolidays_ok by simp
  have w: "walkCounted (taskWith ''A'' ''Phase 1'' 2 2 1 [])"
    by (simp add: walkCounted_def taskWith_def)
  then have counted: "\<forall>t\<in>set (resetDurations
      (tasks (sampleProject [taskWith ''A'' ''Phase 1'' 1 2 (1 / 2) []]))). walkCounted t"
    by (simp add: squeezed_reset)
  from compressSchedule_reset[of sampleHolidays "sampleProject [taskWith ''A'' ''Phase 1'' 1 2 (1 / 2) []]"]
    ok counted obtain p' where
    run: "compressSchedule sampleHolidays (sampleProject [taskWith ''A'' ''Phase 1'' 1 2 (1 / 2) []])
      None None = Some (Inr p')" by blast
  with compressSchedule_reset[of sampleHolidays "sampleProject [taskWith ''A'' ''Phase 1'' 1 2 (1 / 2) []]"]
  have "calculateSchedule sampleHolidays
      ((sampleProject [taskWith ''A'' ''Phase 1'' 1 2 (1 / 2) []])
        \<lparr>tasks := resetDurations (tasks (sampleProject [taskWith ''A'' ''Phase 1'' 1 2 (1 / 2) []]))\<rparr>) =
      Some p'" by blast
  then have "p' = sampleProject [taskAt (taskWith ''A'' ''Phase 1'' 2 2 1 []) (Suc 0) 19724 19738]"
    by (simp add: squeezed_reset squeezed_schedule)
  with run sampleHolidays_ok w squeezed_reset show ?thesis by (simp add: taskWith_def taskAt_def)
qed

text \<open>
  C5, as stated, fails for a task whose baseline is 0: with duration 3 and ratio 1/2 it keeps
  both, so its duration is not its baseline and its ratio is not 1.
\<close>

lemma zero_baseline_reset:
  "resetDurations [taskWith ''A'' ''Phase 1'' 3 0 (1 / 2) []] = [taskWith ''A'' ''Phase 1'' 3 0 (1 / 2) []]"
  by (simp add: resetDurations_def taskWith_def)

lemma zero_baseline_schedule:
  "calculateSchedule sampleHolidays (sampleProject [taskWith ''A'' ''Phase 1'' 3 0 (1 / 2) []]) =
     Some (sampleProject [taskAt (taskWith ''A'' ''Phase 1'' 3 0 (1 / 2) []) (Suc 0) 19724 19745])"
  by (simp add: sched_eval2)

theorem compressSchedule_reset_counterexample:
  "compressSchedule sampleHolidays (sampleProject [taskWith ''A'' ''Phase 1'' 3 0 (1 / 2) []]) None None =
     Some (Inr (sampleProject [taskAt (taskWith ''A'' ''Phase 1'' 3 0 (1 / 2) []) (Suc 0) 19724 19745])) \<and>
   durationWeeks (taskAt (taskWith ''A'' ''Phase 1'' 3 0 (1 / 2) []) (Suc 0) 19724 19745) \<noteq>
     originalDurationWeeks (taskAt (taskWith ''A'' ''Phase 1'' 3 0 (1 / 2) []) (Suc 0) 19724 19745) \<and>
   compressionRatio (taskAt (taskWith ''A'' ''Phase 1'' 3 0 (1 / 2) []) (Suc 0) 19724 19745) \<noteq> 1"
  by (simp add: compressSchedule_def Let_def zero_baseline_reset zero_baseline_schedule)
     (simp add: taskWith_def taskAt_def)

lemma compressBlock1_skip:
  assumes "calculateSchedule H q = Some tp"
    and "getBusinessDays H (startDate q) md (country q) \<le> 0 \<or>
         getBusinessDays H (startDate q) (maxEndOfBlock1 (tasks tp) b (startDate q)) (country q) \<le> 0"
  shows "compressBlock1 H q b md = Some (Inr tp)"
  using assms by (auto simp: compressBlock1_def Let_def)

lemma compressBlock2_skip:
  assumes "calculateSchedule H q = Some tp"
    and "boundsOfBlock2 (tasks tp) b (None, 0) = (Some mn, mx)"
    and "getBusinessDays H mn sd (country q) \<le> 0 \<or> getBusinessDays H mn mx (country q) \<le> 0"
  shows "compressBlock2 H q b sd = Some (Inr tp)"
  using assms by (auto simp: compressBlock2_def Let_def)

lemma inBlock1_reset: "i < length ts \<Longrightarrow> inBlock1 (resetDurations ts ! i) = inBlock1 (ts ! i)"
  by (simp add: resetDurations_nth inBlock1_def)

lemma reset_ratio:
  "i < length ts \<Longrightarrow> 0 < originalDurationWeeks (ts ! i) \<Longrightarrow>
     compressionRatio (resetDurations ts ! i) = 1"
  by (simp add: resetDurations_nth)

text \<open>What the tasks outside a stage's block keep through that stage, and what all tasks keep
  through a stage that is skipped.\<close>

lemma stage1_other:
  assumes "stage1 H p0 m = Some (Inr p1)" and "i < length (tasks p0)" and "\<not> inBlock1 (tasks p0 ! i)"
  shows "durationWeeks (tasks p1 ! i) = durationWeeks (tasks p0 ! i) \<and>
         compressionRatio (tasks p1 ! i) = compressionRatio (tasks p0 ! i)"
  using stage_kept(5)[OF stage1_result[OF assms(1)] refl assms(2)] assms(2,3)
  by (simp add: block1Tasks_iff)

lemma stage2_other:
  assumes "stage2 H p0 p1 s = Some (Inr p2)" and "length (tasks p1) = length (tasks p0)"
    and "i < length (tasks p0)" and "inBlock1 (tasks p0 ! i)"
  shows "durationWeeks (tasks p2 ! i) = durationWeeks (tasks p1 ! i) \<and>
         compressionRatio (tasks p2 ! i) = compressionRatio (tasks p1 ! i)"
  using stage_kept(5)[OF stage2_result[OF assms(1)] refl, of i] assms(2,3,4)
  by (simp add: block2Tasks_iff)

lemma calculateSchedule_keeps:
  assumes "calculateSchedule H q = Some q'" and "i < length (tasks q)"
  shows "durationWeeks (tasks q' ! i) = durationWeeks (tasks q ! i) \<and>
         compressionRatio (tasks q' ! i) = compressionRatio (tasks q ! i)"
  using calculateSchedule_nth(3,5)[OF assms] by simp

text \<open>
  C8, as the code has it. \<open>compressSchedule\<close> never divides by zero, and \<open>getBusinessDays\<close>
  is 0 when the end date is not after the start date. When, for the marketing date, the
  available or the standard days of block 1 are zero or negative, every block-1 task comes
  back with the \<open>durationWeeks\<close> and \<open>compressionRatio\<close> the reset left it with; so do the
  block-2 tasks when, for the signing date, the available or the standard days of block 2
  are zero or negative. That ratio is 1 for every task whose \<open>originalDurationWeeks\<close> is
  positive.
\<close>

theorem compression_skips_block:
  "compressSchedule H p m s \<noteq> Some (Inl e) \<and>
   (endDate \<le> start \<longrightarrow> getBusinessDays H start endDate cs = 0) \<and>
   (\<forall>md tempProj r i.
      m = Some md \<and>
      calculateSchedule H (p\<lparr>tasks := resetDurations (tasks p)\<rparr>) = Some tempProj \<and>
      (getBusinessDays H (startDate p) md (country p) \<le> 0 \<or>
       getBusinessDays H (startDate p)
         (maxEndOfBlock1 (tasks tempProj) (block1Tasks (resetDurations (tasks p))) (startDate p))
         (country p) \<le> 0) \<and>
      compressSchedule H p m s = Some (Inr r) \<and> i < length (tasks p) \<and> inBlock1 (tasks p ! i) \<longrightarrow>
        durationWeeks (tasks r ! i) = durationWeeks (resetDurations (tasks p) ! i) \<and>
        compressionRatio (tasks r ! i) = compressionRatio (resetDurations (tasks p) ! i) \<and>
        (0 < originalDurationWeeks (tasks p ! i) \<longrightarrow> compressionRatio (tasks r ! i) = 1)) \<and>
   (\<forall>sd p1 tempProj minStartBlock2 maxEndBlock2 r i.
      s = Some sd \<and>
      stage1 H (p\<lparr>tasks := resetDurations (tasks p)\<rparr>) m = Some (Inr p1) \<and>
      calculateSchedule H p1 = Some tempProj \<and>
      boundsOfBlock2 (tasks tempProj) (block2Tasks (resetDurations (tasks p))) (None, 0) =
        (Some minStartBlock2, maxEndBlock2) \<and>
      (getBusinessDays H minStartBlock2 sd (country p) \<le> 0 \<or>
       getBusinessDays H minStartBlock2 maxEndBlock2 (country p) \<le> 0) \<and>
      compressSchedule H p m s = Some (Inr r) \<and> i < length (tasks p) \<and> \<not> inBlock1 (tasks p ! i) \<longrightarrow>
        durationWeeks (tasks r ! i) = durationWeeks (resetDurations (tasks p) ! i) \<and>
        compressionRatio (tasks r ! i) = compressionRatio (resetDurations (tasks p) ! i) \<and>
        (0 < originalDurationWeeks (tasks p ! i) \<longrightarrow> compressionRatio (tasks r ! i) = 1))"
proof -
  let ?p0 = "p\<lparr>tasks := resetDurations (tasks p)\<rparr>"
  have block1: "durationWeeks (tasks r ! i) = durationWeeks (resetDurations (tasks p) ! i) \<and>
        compressionRatio (tasks r ! i) = compressionRatio (resetDurations (tasks p) ! i)"
    if m: "m = Some md" and tp: "calculateSchedule H ?p0 = Some tempProj"
      and days: "getBusinessDays H (startDate p) md (country p) \<le> 0 \<or>
       getBusinessDays H (startDate p)
         (maxEndOfBlock1 (tasks tempProj) (block1Tasks (resetDurations (tasks p))) (startDate p))
         (country p) \<le> 0"
      and run: "compressSchedule H p m s = Some (Inr r)" and i: "i < length (tasks p)"
      and b1: "inBlock1 (tasks p ! i)" for md tempProj r i
    using run
  proof (cases rule: compressSchedule_cases)
    case (plain r')
    with m show ?thesis by simp
  next
    case (staged p1 p2 r')
    have i0: "i < length (tasks ?p0)" using i by (simp add: resetDurations_len)
    have "compressBlock1 H ?p0 (block1Tasks (tasks ?p0)) md = Some (Inr tempProj)"
      using days by (intro compressBlock1_skip[OF tp]) simp
    with staged(3) m have p1: "p1 = tempProj" by (simp add: stage1_def)
    have len1: "length (tasks p1) = length (tasks ?p0)"
      unfolding p1 by (rule calculateSchedule_fields(5)[OF tp])
    have len2: "length (tasks p2) = length (tasks p1)"
      by (rule stage_kept(2)[OF stage2_result[OF staged(4)] refl])
    have in0: "inBlock1 (tasks ?p0 ! i)" using b1 i by (simp add: inBlock1_reset)
    from calculateSchedule_keeps[OF tp i0] stage2_other[OF staged(4) len1 i0 in0]
      calculateSchedule_keeps[OF staged(5), of i] len1 len2 i0 p1 staged(2)
    show ?thesis by simp
  qed
  have block2: "durationWeeks (tasks r ! i) = durationWeeks (resetDurations (tasks p) ! i) \<and>
        compressionRatio (tasks r ! i) = compressionRatio (resetDurations (tasks p) ! i)"
    if s: "s = Some sd" and st1: "stage1 H ?p0 m = Some (Inr p1)"
      and tp: "calculateSchedule H p1 = Some tempProj"
      and bounds: "boundsOfBlock2 (tasks tempProj) (block2Tasks (resetDurations (tasks p))) (None, 0) =
        (Some mn, mx)"
      and days: "getBusinessDays H mn sd (country p) \<le> 0 \<or> getBusinessDays H mn mx (country p) \<le> 0"
      and run: "compressSchedule H p m s = Some (Inr r)" and i: "i < length (tasks p)"
      and b2: "\<not> inBlock1 (tasks p ! i)" for sd p1 tempProj mn mx r i
    using run
  proof (cases rule: compressSchedule_cases)
    case (plain r')
    with s show ?thesis by simp
  next
    case (staged p1' p2 r')
    from staged(3) st1 have p1': "p1' = p1" by simp
    have i0: "i < length (tasks ?p0)" using i by (simp add: resetDurations_len)
    have len1: "length (tasks p1) = length (tasks ?p0)"
      by (rule stage_kept(2)[OF stage1_result[OF st1] refl])
    from rest_fields[OF stage_kept(1)[OF stage1_result[OF st1] refl]]
    have c: "country p1 = country p" by simp
    have "compressBlock2 H p1 (block2Tasks (tasks ?p0)) sd = Some (Inr tempProj)"
      using days bounds by (intro compressBlock2_skip[OF tp, of _ mn mx]) (simp_all add: c)
    with staged(4) s p1' have p2: "p2 = tempProj" by (simp add: stage2_def)
    have out0: "\<not> inBlock1 (tasks ?p0 ! i)" using b2 i by (simp add: inBlock1_reset)
    have len2: "length (tasks p2) = length (tasks p1)"
      unfolding p2 by (rule calculateSchedule_fields(5)[OF tp])
    from stage1_other[OF st1 i0 out0] calculateSchedule_keeps[OF tp, of i]
      calculateSchedule_keeps[OF staged(5), of i] len1 len2 i0 p2 staged(2)
    show ?thesis by simp
  qed
  have one: "compressionRatio (resetDurations (tasks p) ! i) = 1"
    if "i < length (tasks p)" "0 < originalDurationWeeks (tasks p ! i)" for i
    using that by (rule reset_ratio)
  show ?thesis
  proof (intro conjI allI impI)
    show "compressSchedule H p m s \<noteq> Some (Inl e)" by (rule compressSchedule_no_division)
    show "getBusinessDays H start endDate cs = 0" if "endDate \<le> start"
      using that by (rule gbd_empty)
  qed (use block1 block2 one in \<open>metis\<close>)+
qed

text \<open>A project with one task in each block, a marketing date on the start date and a
  signing date on day 19740.\<close>

lemma skip_reset:
  "resetDurations [taskWith ''A'' ''Phase 1'' 1 2 (1 / 2) [], taskWith ''B'' ''Phase 2'' 0 0 1 []] =
     [taskWith ''A'' ''Phase 1'' 2 2 1 [], taskWith ''B'' ''Phase 2'' 0 0 1 []]"
  by (simp add: resetDurations_def taskWith_def)

lemma skip_blocks:
  "block1Tasks [taskWith ''A'' ''Phase 1'' 2 2 1 [], taskWith ''B'' ''Phase 2'' 0 0 1 []] = [0]"
  "block2Tasks [taskWith ''A'' ''Phase 1'' 2 2 1 [], taskWith ''B'' ''Phase 2'' 0 0 1 []] = [Suc 0]"
  by (simp_all add: block1Tasks_def block2Tasks_def inBlock1_def taskWith_def upt_rec)

lemma skip_inBlock1:
  "inBlock1 (taskWith ''A'' ''Phase 1'' 1 2 (1 / 2) [])" "\<not> inBlock1 (taskWith ''B'' ''Phase 2'' 0 0 1 [])"
  by (simp_all add: inBlock1_def taskWith_def)

lemma skip_schedule:
  "calculateSchedule sampleHolidays
     (sampleProject [taskWith ''A'' ''Phase 1'' 2 2 1 [], taskWith ''B'' ''Phase 2'' 0 0 1 []]) =
   Some (sampleProject [taskAt (taskWith ''A'' ''Phase 1'' 2 2 1 []) (Suc 0) 19724 19738,
      taskAt (taskWith ''B'' ''Phase 2'' 0 0 1 []) 2 19724 19724])"
  by (simp add: sched_eval2)

lemma skip_schedule_again:
  "calculateSchedule sampleHolidays
     (sampleProject [taskAt (taskWith ''A'' ''Phase 1'' 2 2 1 []) (Suc 0) 19724 19738,
      taskAt (taskWith ''B'' ''Phase 2'' 0 0 1 []) 2 19724 19724]) =
   Some (sampleProject [taskAt (taskWith ''A'' ''Phase 1'' 2 2 1 []) (Suc 0) 19724 19738,
      taskAt (taskWith ''B'' ''Phase 2'' 0 0 1 []) 2 19724 19724])"
  by (simp add: sched_eval2)

lemma skip_bounds:
  "boundsOfBlock2 [taskAt (taskWith ''A'' ''Phase 1'' 2 2 1 []) (Suc 0) 19724 19738,
      taskAt (taskWith ''B'' ''Phase 2'' 0 0 1 []) 2 19724 19724] [Suc 0] (None, 0) =
     (Some 19724, 19724)"
  by (simp add: taskWith_def taskAt_def)

lemma skip_stage1:
  "stage1 sampleHolidays
     (sampleProject [taskWith ''A'' ''Phase 1'' 2 2 1 [], taskWith ''B'' ''Phase 2'' 0 0 1 []])
     (Some 19723) =
   Some (Inr (sampleProject [taskAt (taskWith ''A'' ''Phase 1'' 2 2 1 []) (Suc 0) 19724 19738,
      taskAt (taskWith ''B'' ''Phase 2'' 0 0 1 []) 2 19724 19724]))"
  unfolding stage1_def option.case
  by (rule compressBlock1_skip[OF skip_schedule]) (simp add: gbd_empty)

lemma skip_stage2:
  "stage2 sampleHolidays
     (sampleProject [taskWith ''A'' ''Phase 1'' 2 2 1 [], taskWith ''B'' ''Phase 2'' 0 0 1 []])
     (sampleProject [taskAt (taskWith ''A'' ''Phase 1'' 2 2 1 []) (Suc 0) 19724 19738,
      taskAt (taskWith ''B'' ''Phase 2'' 0 0 1 []) 2 19724 19724])
     (Some 19740) =
   Some (Inr (sampleProject [taskAt (taskWith ''A'' ''Phase 1'' 2 2 1 []) (Suc 0) 19724 19738,
      taskAt (taskWith ''B'' ''Phase 2'' 0 0 1 []) 2 19724 19724]))"
  unfolding stage2_def option.case
proof (rule compressBlock2_skip[OF skip_schedule_again, of _ 19724 19724])
  show "boundsOfBlock2
      (tasks (sampleProject [taskAt (taskWith ''A'' ''Phase 1'' 2 2 1 []) (Suc 0) 19724 19738,
         taskAt (taskWith ''B'' ''Phase 2'' 0 0 1 []) 2 19724 19724]))
      (block2Tasks (tasks (sampleProject
         [taskWith ''A'' ''Phase 1'' 2 2 1 [], taskWith ''B'' ''Phase 2'' 0 0 1 []])))
      (None, 0) = (Some 19724, 19724)"
    using skip_bounds by (simp add: skip_blocks)
qed (simp add: gbd_empty)

lemma skip_run:
  "compressSchedule sampleHolidays
     (sampleProject [taskWith ''A'' ''Phase 1'' 1 2 (1 / 2) [], taskWith ''B'' ''Phase 2'' 0 0 1 []])
     (Some 19723) (Some 19740) =
   Some (Inr (sampleProject [taskAt (taskWith ''A'' ''Phase 1'' 2 2 1 []) (Suc 0) 19724 19738,
      taskAt (taskWith ''B'' ''Phase 2'' 0 0 1 []) 2 19724 19724]))"
  by (simp add: compressSchedule_staged Let_def skip_reset skip_stage1 skip_stage2 skip_schedule_again)

theorem compression_skips_block_witness:
  "getBusinessDays sampleHolidays 19723 19723 [''US''] \<le> 0 \<and>
   getBusinessDays sampleHolidays 19724 19724 [''US''] \<le> 0 \<and>
   inBlock1 (taskWith ''A'' ''Phase 1'' 1 2 (1 / 2) []) \<and>
   \<not> inBlock1 (taskWith ''B'' ''Phase 2'' 0 0 1 []) \<and>
   compressSchedule sampleHolidays
     (sampleProject [taskWith ''A'' ''Phase 1'' 1 2 (1 / 2) [], taskWith ''B'' ''Phase 2'' 0 0 1 []])
     (Some 19723) (Some 19740) =
   Some (Inr (sampleProject [taskAt (taskWith ''A'' ''Phase 1'' 2 2 1 []) (Suc 0) 19724 19738,
      taskAt (taskWith ''B'' ''Phase 2'' 0 0 1 []) 2 19724 19724])) \<and>
   compressionRatio (taskAt (taskWith ''A'' ''Phase 1'' 2 2 1 []) (Suc 0) 19724 19738) = 1 \<and>
   durationWeeks (taskAt (taskWith ''B'' ''Phase 2'' 0 0 1 []) 2 19724 19724) =
     durationWeeks (taskWith ''B'' ''Phase 2'' 0 0 1 [])"
proof -
  let ?P = "sampleProject [taskWith ''A'' ''Phase 1'' 1 2 (1 / 2) [], taskWith ''B'' ''Phase 2'' 0 0 1 []]"
  let ?R = "sampleProject [taskAt (taskWith ''A'' ''Phase 1'' 2 2 1 []) (Suc 0) 19724 19738,
      taskAt (taskWith ''B'' ''Phase 2'' 0 0 1 []) 2 19724 19724]"
  note main = compression_skips_block[of sampleHolidays ?P "Some 19723" "Some 19740" DivisionByZero
      19723 19723 "[''US'']"]
  have g1: "getBusinessDays sampleHolidays 19723 19723 [''US''] \<le> 0" using main by simp
  have g2: "getBusinessDays sampleHolidays 19724 19724 [''US''] \<le> 0" by (simp add: gbd_empty)
  have p0: "?P\<lparr>tasks := resetDurations (tasks ?P)\<rparr> =
      sampleProject [taskWith ''A'' ''Phase 1'' 2 2 1 [], taskWith ''B'' ''Phase 2'' 0 0 1 []]"
    by (simp add: skip_reset)
  have a: "compressionRatio (tasks ?R ! 0) = 1"
  proof -
    have "Some (19723::int) = Some 19723 \<and>
      calculateSchedule sampleHolidays (?P\<lparr>tasks := resetDurations (tasks ?P)\<rparr>) = Some ?R \<and>
      (getBusinessDays sampleHolidays (startDate ?P) 19723 (country ?P) \<le> 0 \<or>
       getBusinessDays sampleHolidays (startDate ?P)
         (maxEndOfBlock1 (tasks ?R) (block1Tasks (resetDurations (tasks ?P))) (startDate ?P))
         (country ?P) \<le> 0) \<and>
      compressSchedule sampleHolidays ?P (Some 19723) (Some 19740) = Some (Inr ?R) \<and>
      0 < length (tasks ?P) \<and> inBlock1 (tasks ?P ! 0)"
      using g1 skip_run skip_inBlock1 by (simp add: skip_reset skip_schedule)
    moreover have "0 < originalDurationWeeks (tasks ?P ! 0)" by (simp add: taskWith_def)
    ultimately show ?thesis using main by blast
  qed
  have b: "durationWeeks (tasks ?R ! 1) = durationWeeks (resetDurations (tasks ?P) ! 1)"
  proof -
    have "Some (19740::int) = Some 19740 \<and>
      stage1 sampleHolidays (?P\<lparr>tasks := resetDurations (tasks ?P)\<rparr>) (Some 19723) = Some (Inr ?R) \<and>
      calculateSchedule sampleHolidays ?R = Some ?R \<and>
      boundsOfBlock2 (tasks ?R) (block2Tasks (resetDurations (tasks ?P))) (None, 0) =
        (Some 19724, 19724) \<and>
      (getBusinessDays sampleHolidays 19724 19740 (country ?P) \<le> 0 \<or>
       getBusinessDays sampleHolidays 19724 19724 (country ?P) \<le> 0) \<and>
      compressSchedule sampleHolidays ?P (Some 19723) (Some 19740) = Some (Inr ?R) \<and>
      1 < length (tasks ?P) \<and> \<not> inBlock1 (tasks ?P ! 1)"
      using g2 skip_run skip_inBlock1 skip_bounds
      by (simp add: skip_stage1 skip_schedule_again skip_reset skip_blocks)
    then show ?thesis using main by blast
  qed
  from a b g1 g2 skip_run skip_inBlock1 show ?thesis by (simp add: skip_reset)
qed

text \<open>
  C8, as stated, fails for a block-1 task whose baseline is 0 and whose ratio is 1/2: the
  marketing date is the start date, so no business day is available and the scaling is
  skipped, and the task keeps the ratio 1/2 that the reset did not touch, not 1.
\<close>

lemma stale_reset:
  "resetDurations [taskWith ''A'' ''Phase 1'' 0 0 (1 / 2) []] = [taskWith ''A'' ''Phase 1'' 0 0 (1 / 2) []]"
  by (simp add: resetDurations_def taskWith_def)

lemma stale_schedule:
  "calculateSchedule sampleHolidays (sampleProject [taskWith ''A'' ''Phase 1'' 0 0 (1 / 2) []]) =
     Some (sampleProject [taskAt (taskWith ''A'' ''Phase 1'' 0 0 (1 / 2) []) (Suc 0) 19724 19724])"
  by (simp add: sched_eval2)

lemma stale_schedule_again:
  "calculateSchedule sampleHolidays
     (sampleProject [taskAt (taskWith ''A'' ''Phase 1'' 0 0 (1 / 2) []) (Suc 0) 19724 19724]) =
     Some (sampleProject [taskAt (taskWith ''A'' ''Phase 1'' 0 0 (1 / 2) []) (Suc 0) 19724 19724])"
  by (simp add: sched_eval2)

lemma stale_stage1:
  "stage1 sampleHolidays (sampleProject [taskWith ''A'' ''Phase 1'' 0 0 (1 / 2) []]) (Some 19723) =
   Some (Inr (sampleProject [taskAt (taskWith ''A'' ''Phase 1'' 0 0 (1 / 2) []) (Suc 0) 19724 19724]))"
  unfolding stage1_def option.case
  by (rule compressBlock1_skip[OF stale_schedule]) (simp add: gbd_empty)

theorem compression_skips_block_counterexample:
  "getBusinessDays sampleHolidays 19723 19723 [''US''] = 0 \<and>
   inBlock1 (taskWith ''A'' ''Phase 1'' 0 0 (1 / 2) []) \<and>
   compressSchedule sampleHolidays (sampleProject [taskWith ''A'' ''Phase 1'' 0 0 (1 / 2) []])
     (Some 19723) None =
   Some (Inr (sampleProject [taskAt (taskWith ''A'' ''Phase 1'' 0 0 (1 / 2) []) (Suc 0) 19724 19724])) \<and>
   compressionRatio (taskAt (taskWith ''A'' ''Phase 1'' 0 0 (1 / 2) []) (Suc 0) 19724 19724) \<noteq> 1"
  by (simp add: compressSchedule_staged Let_def stale_reset stale_stage1 stale_schedule_again
      stage2_def gbd_empty)
     (simp add: taskWith_def taskAt_def inBlock1_def)

end
